theory Spec2Isabelle
  imports Main "HOL-Library.Sublist"
begin

section \<open>Python values\<close>

text \<open>
  A Python \<open>str\<close> is a sequence of Unicode code points, and \<open>split\<close> and \<open>strip\<close> work on
  code points, so a string is a list of code points here. ASCII literals of the source are
  written with \<open>py\<close>; the Chinese literals are given by their code points.
\<close>

type_synonym pystr = "nat list"

definition py :: "string \<Rightarrow> pystr" where
  "py s = map of_char s"

text \<open>
  The exceptions a request or the job can end with; none of them is caught in app.py.
  \<open>OverflowError\<close> is what the SQLite driver raises for an integer parameter outside the
  signed 64-bit range, and \<open>NotFound\<close> what the URL router raises for a path that matches
  no route (Flask answers it with its own HTML page of status 404, not with JSON).
\<close>

datatype fault =
    KeyError string
  | AttributeError string
  | IntegrityError string
  | OverflowError string
  | NotFound string
  | ExternalFault string

text \<open>\<open>str.isspace\<close> for one code point: the Unicode white space characters of CPython 3.\<close>

definition py_isspace :: "nat \<Rightarrow> bool" where
  "py_isspace c \<longleftrightarrow>
     c \<in> set [9, 10, 11, 12, 13, 28, 29, 30, 31, 32, 133, 160, 5760,
               8192, 8193, 8194, 8195, 8196, 8197, 8198, 8199, 8200, 8201, 8202,
               8232, 8233, 8239, 8287, 12288]"

text \<open>\<open>s.strip()\<close>: leading and trailing white space removed.\<close>

definition py_strip :: "pystr \<Rightarrow> pystr" where
  "py_strip s = rev (dropWhile py_isspace (rev (dropWhile py_isspace s)))"

text \<open>
  \<open>text.split(sep)\<close> for a non-empty separator: the text is cut at every occurrence of
  \<open>sep\<close>, found from left to right without overlap. The result is never empty. (Python
  raises \<open>ValueError\<close> for an empty separator; app.py only splits on a constant of three
  code points, and for an empty separator this function returns the text uncut.)
\<close>

fun py_split :: "pystr \<Rightarrow> pystr \<Rightarrow> pystr list" where
  "py_split sep [] = [[]]"
| "py_split sep (c # cs) =
     (if sep \<noteq> [] \<and> prefix sep (c # cs)
      then [] # py_split sep (drop (length sep - 1) cs)
      else (case py_split sep cs of
              [] \<Rightarrow> [[c]]
            | p # ps \<Rightarrow> (c # p) # ps))"

section \<open>The Summarization Client\<close>

text \<open>
  The JSON payload of the completion request (app.py, lines 60 to 66): the model name and
  the messages, each a role and a content.
\<close>

record payload =
  pl_model :: pystr
  pl_messages :: "(pystr \<times> pystr) list"

text \<open>The system message of line 63.\<close>

definition system_content :: pystr where
  "system_content =
     [20320, 26159, 20869, 23481, 25688, 35201, 21644, 32844, 19994, 24314, 35758,
      19987, 23478, 12290]"

text \<open>The f-string of line 64, around the profession, the title and the content.\<close>

definition user_content :: "pystr \<Rightarrow> pystr \<Rightarrow> pystr \<Rightarrow> pystr" where
  "user_content profession title content =
     [35831, 24635, 32467, 20197, 19979, 20869, 23481, 20026, 50, 48, 48, 23383, 25688,
      35201, 65292, 24182, 25552, 20379, 19968, 26465, 38024, 23545]
     @ profession
     @ [32844, 19994, 30340, 25216, 33021, 25552, 21319, 24314, 35758, 65306, 10,
        26631, 39064, 65306]
     @ title
     @ [10, 20869, 23481, 65306]
     @ content"

definition build_payload :: "pystr \<Rightarrow> pystr \<Rightarrow> pystr \<Rightarrow> payload" where
  "build_payload profession title content =
     \<lparr> pl_model = py ''gpt-4'',
       pl_messages = [(py ''system'', system_content),
                      (py ''user'', user_content profession title content)] \<rparr>"

text \<open>
  The delimiter of line 70, the three code points U+5EFA U+8BAE U+FF1A (the word for
  "suggestion" and a full-width colon).
\<close>

definition delimiter :: pystr where
  "delimiter = [24314, 35758, 65306]"

text \<open>Lines 70 to 73: the returned text cut into the summary and the suggestion.\<close>

definition parse_completion :: "pystr \<Rightarrow> pystr \<times> pystr" where
  "parse_completion text =
     (let parts = py_split delimiter text;
          summary = py_strip (parts ! 0);
          suggestion = (if length parts > 1 then py_strip (parts ! 1) else [])
      in (summary, suggestion))"

text \<open>
  \<open>generate_summary_and_suggestion\<close>. The completion endpoint is the parameter \<open>post\<close>:
  it stands for lines 67 to 69, the HTTP request, the decoding of the JSON answer and the
  access to \<open>choices[0].message.content\<close>, and returns the text or the fault any of the
  three raised.
\<close>

definition generate_summary_and_suggestion ::
  "(payload \<Rightarrow> fault + pystr) \<Rightarrow> pystr \<Rightarrow> pystr \<Rightarrow> pystr \<Rightarrow> fault + pystr \<times> pystr" where
  "generate_summary_and_suggestion post profession title content =
     (case post (build_payload profession title content) of
        Inl f \<Rightarrow> Inl f
      | Inr text \<Rightarrow> Inr (parse_completion text))"

section \<open>The persistent store\<close>

text \<open>
  The three tables of app.py (lines 32 to 56), a row as a record and a table as the list of
  its rows in insertion order. Dates and times are numbers (days and seconds). The columns
  the code always fills are plain values; \<open>summary\<close> and \<open>suggestion\<close> of an Info are
  empty (\<open>None\<close>) until the ingestion job fills them.
\<close>

record user =
  u_id :: int
  u_profession :: pystr
  u_field :: "pystr option"
  u_contact :: "pystr option"
  u_created_at :: nat

record info =
  i_id :: int
  i_title :: pystr
  i_url :: pystr
  i_source :: pystr
  i_content :: pystr
  i_summary :: "pystr option"
  i_suggestion :: "pystr option"
  i_fetched_at :: nat

record push =
  p_id :: int
  p_date :: nat
  p_user_id :: int
  p_info_id :: int
  p_suggestion :: pystr
  p_pushed :: bool
  p_done :: bool

record store =
  users :: "user list"
  infos :: "info list"
  pushes :: "push list"

text \<open>The store after \<open>db.create_all()\<close> on a new database.\<close>

definition empty_store :: store where
  "empty_store = \<lparr> users = [], infos = [], pushes = [] \<rparr>"

text \<open>
  The integer primary key the database gives a new row: 1 in an empty table, one more than
  the largest key otherwise (SQLite's rowid, the default database of line 21).
\<close>

definition next_id :: "int list \<Rightarrow> int" where
  "next_id ids = (if ids = [] then 1 else Max (set ids) + 1)"

text \<open>
  The integers SQLite stores and the driver can pass as a query parameter: the signed 64-bit
  range. A Python integer outside it makes the query raise \<open>OverflowError\<close> before any row
  is looked at.
\<close>

definition sqlite_integer :: "int \<Rightarrow> bool" where
  "sqlite_integer k \<longleftrightarrow> - (2 ^ 63) \<le> k \<and> k < 2 ^ 63"

text \<open>
  \<open>Push.query.get(push_id)\<close>, with the key taken from the request: the row with that key,
  or \<open>OverflowError\<close> for a key the driver cannot pass.
\<close>

definition Push_query_get :: "store \<Rightarrow> int \<Rightarrow> fault + push option" where
  "Push_query_get s push_id =
     (if sqlite_integer push_id then Inr (find (\<lambda>p. p_id p = push_id) (pushes s))
      else Inl (OverflowError ''Python int too large to convert to SQLite INTEGER''))"

text \<open>
  \<open>Info.query.get(push.info_id)\<close>: the row with that key. The key is read from a stored
  Push row, so it is an integer the database holds.
\<close>

definition Info_query_get :: "store \<Rightarrow> int \<Rightarrow> info option" where
  "Info_query_get s info_id = find (\<lambda>i. i_id i = info_id) (infos s)"

text \<open>
  \<open>Push.query.filter_by(user_id=user_id, date=today).first()\<close>, with the user identifier
  taken from the request: the first matching row, in the order of the table, or
  \<open>OverflowError\<close> for an identifier the driver cannot pass.
\<close>

definition Push_query_first :: "store \<Rightarrow> int \<Rightarrow> nat \<Rightarrow> fault + push option" where
  "Push_query_first s user_id today =
     (if sqlite_integer user_id
      then Inr (find (\<lambda>p. p_user_id p = user_id \<and> p_date p = today) (pushes s))
      else Inl (OverflowError ''Python int too large to convert to SQLite INTEGER''))"

section \<open>The API layer\<close>

text \<open>
  The JSON values the handlers return, and a response as a status code with its body. A
  handler returns the response, or the fault it raised, and the store it leaves.
\<close>

datatype json =
    JNull
  | JBool bool
  | JInt int
  | JStr pystr
  | JObj "(string \<times> json) list"

type_synonym response = "nat \<times> json"

definition json_of_optional :: "pystr option \<Rightarrow> json" where
  "json_of_optional v = (case v of None \<Rightarrow> JNull | Some t \<Rightarrow> JStr t)"

text \<open>
  \<open>register_user\<close> (lines 105 to 112). The request body is a dictionary from keys to
  strings or null (\<open>Some None\<close> is a key with the value null). \<open>data['profession']\<close>
  raises \<open>KeyError\<close> when the key is absent, and the commit raises \<open>IntegrityError\<close> for
  a null profession, the column being \<open>nullable=False\<close>.
\<close>

definition register_user ::
  "nat \<Rightarrow> store \<Rightarrow> (string \<rightharpoonup> pystr option) \<Rightarrow> (fault + response) \<times> store" where
  "register_user utcnow s data =
     (case data ''profession'' of
        None \<Rightarrow> (Inl (KeyError ''profession''), s)
      | Some None \<Rightarrow> (Inl (IntegrityError ''user.profession''), s)
      | Some (Some profession) \<Rightarrow>
          (let user = \<lparr> u_id = next_id (map u_id (users s)),
                         u_profession = profession,
                         u_field = (case data ''field'' of None \<Rightarrow> None | Some v \<Rightarrow> v),
                         u_contact = (case data ''contact'' of None \<Rightarrow> None | Some v \<Rightarrow> v),
                         u_created_at = utcnow \<rparr>
           in (Inr (200, JObj [(''status'', JStr (py ''ok'')), (''user_id'', JInt (u_id user))]),
               s\<lparr>users := users s @ [user]\<rparr>)))"

text \<open>
  \<open>get_today\<close> (lines 114 to 121); \<open>today\<close> is \<open>datetime.date.today()\<close> when the request
  is handled. The route's converter \<open><int:user_id>\<close> accepts digits only: a path with a
  negative identifier matches no route, the router raises \<open>NotFound\<close> and the function
  is not called. \<open>info.title\<close> on a missing Info raises \<open>AttributeError\<close>.
\<close>

definition get_today :: "nat \<Rightarrow> store \<Rightarrow> int \<Rightarrow> (fault + response) \<times> store" where
  "get_today today s user_id =
     (if user_id < 0 then (Inl (NotFound ''/api/today/<int:user_id>''), s)
      else
        (case Push_query_first s user_id today of
           Inl f \<Rightarrow> (Inl f, s)
         | Inr None \<Rightarrow> (Inr (404, JObj [(''error'', JStr (py ''No content yet''))]), s)
         | Inr (Some push) \<Rightarrow>
             (case Info_query_get s (p_info_id push) of
                None \<Rightarrow> (Inl (AttributeError ''title''), s)
              | Some info \<Rightarrow>
                  (Inr (200, JObj [(''title'', JStr (i_title info)),
                                   (''summary'', json_of_optional (i_summary info)),
                                   (''suggestion'', JStr (p_suggestion push)),
                                   (''done'', JBool (p_done push))]),
                   s))))"

text \<open>
  \<open>complete_task\<close> (lines 123 to 132). The request body is a dictionary whose
  \<open>push_id\<close>, when present, is an integer.
\<close>

definition complete_task ::
  "store \<Rightarrow> (string \<rightharpoonup> int) \<Rightarrow> (fault + response) \<times> store" where
  "complete_task s data =
     (case data ''push_id'' of
        None \<Rightarrow> (Inl (KeyError ''push_id''), s)
      | Some push_id \<Rightarrow>
          (case Push_query_get s push_id of
             Inl f \<Rightarrow> (Inl f, s)
           | Inr None \<Rightarrow> (Inr (404, JObj [(''error'', JStr (py ''Not found''))]), s)
           | Inr (Some push) \<Rightarrow>
               (Inr (200, JObj [(''status'', JStr (py ''ok''))]),
                s\<lparr>pushes := map (\<lambda>p. if p_id p = p_id push then p\<lparr>p_done := True\<rparr> else p)
                                 (pushes s)\<rparr>)))"

section \<open>The feed ingestion job\<close>

text \<open>
  What \<open>feedparser.parse\<close> returns: the feed's title, when it has one, and its entries.
  \<open>entry.title\<close> and \<open>entry.link\<close> raise \<open>AttributeError\<close> on an entry without them;
  \<open>entry.get('summary', '')\<close> and \<open>feed.feed.get('title', 'RSS')\<close> have defaults.
\<close>

record entry =
  e_title :: "pystr option"
  e_link :: "pystr option"
  e_summary :: "pystr option"

record feed =
  f_title :: "pystr option"
  f_entries :: "entry list"

text \<open>
  The surroundings of one run of the job: the configured feed URLs, the feed parser, the
  completion endpoint and the clock. The endpoint's answer may depend on how many requests
  the run has sent before, so that two requests with the same payload can be answered
  differently.
\<close>

record env =
  RSS_URLS :: "pystr list"
  feedparser_parse :: "pystr \<Rightarrow> fault + feed"
  requests_post :: "nat \<Rightarrow> payload \<Rightarrow> fault + pystr"
  date_today :: nat
  datetime_utcnow :: nat

text \<open>
  The job's effects in the order they happen: an Info row committed (line 88), and a call of
  the Summarization Client (line 90) for an Info and a user, recorded with whether the row
  of that Info is in the committed store at the moment of the call.
\<close>

datatype event =
    Info_Committed int
  | Summarize_Called int int bool

text \<open>
  The state of a run: the committed store, the Push objects added to the session and not
  yet committed (user, Info and suggestion of each), the effects so far and the number of
  requests sent to the completion endpoint.
\<close>

record run =
  db :: store
  pending :: "(int \<times> int \<times> pystr) list"
  events :: "event list"
  requests :: nat

text \<open>
  The commit writes the pending Push objects to the table, in the order they were added.
  A row gets its key, the column default \<open>date.today\<close> and \<open>False\<close> for both flags
  (lines 50 to 56).
\<close>

fun flush :: "nat \<Rightarrow> (int \<times> int \<times> pystr) list \<Rightarrow> push list \<Rightarrow> push list" where
  "flush today [] ps = ps"
| "flush today ((user_id, info_id, suggestion) # rest) ps =
     flush today rest
       (ps @ [\<lparr> p_id = next_id (map p_id ps), p_date = today, p_user_id = user_id,
                 p_info_id = info_id, p_suggestion = suggestion, p_pushed = False,
                 p_done = False \<rparr>])"

definition session_commit :: "env \<Rightarrow> run \<Rightarrow> run" where
  "session_commit E r =
     r\<lparr> db := (db r)\<lparr>pushes := flush (date_today E) (pending r) (pushes (db r))\<rparr>,
        pending := [] \<rparr>"

text \<open>The new Info row of line 87, and the changed Info object written back by its key.\<close>

definition insert_info :: "info \<Rightarrow> store \<Rightarrow> store" where
  "insert_info info s = s\<lparr>infos := infos s @ [info]\<rparr>"

definition update_info :: "info \<Rightarrow> store \<Rightarrow> store" where
  "update_info info s =
     s\<lparr>infos := map (\<lambda>i. if i_id i = i_id info then info else i) (infos s)\<rparr>"

text \<open>
  The loop over the users (lines 89 to 95). A fault of the Summarization Client ends the
  run; the Push added for the user before is then still pending, not committed.
\<close>

fun for_users :: "env \<Rightarrow> info \<Rightarrow> user list \<Rightarrow> run \<Rightarrow> run \<times> fault option" where
  "for_users E info [] r = (r, None)"
| "for_users E info (user # rest) r =
     (let r0 = r\<lparr> events := events r @ [Summarize_Called (i_id info) (u_id user)
                                              (Info_query_get (db r) (i_id info) \<noteq> None)],
                  requests := Suc (requests r) \<rparr>
      in case generate_summary_and_suggestion (requests_post E (requests r))
                (u_profession user) (i_title info) (i_content info) of
           Inl f \<Rightarrow> (r0, Some f)
         | Inr (summary, suggestion) \<Rightarrow>
             (let info' = info\<lparr>i_summary := Some summary, i_suggestion := Some suggestion\<rparr>;
                  r1 = session_commit E (r0\<lparr>db := update_info info' (db r0)\<rparr>);
                  r2 = r1\<lparr>pending := pending r1 @ [(u_id user, i_id info', suggestion)]\<rparr>
              in for_users E info' rest r2))"

text \<open>One entry of a feed (lines 81 to 97).\<close>

definition process_entry :: "env \<Rightarrow> feed \<Rightarrow> user list \<Rightarrow> entry \<Rightarrow> run \<Rightarrow> run \<times> fault option" where
  "process_entry E fd us entry r =
     (case e_title entry of
        None \<Rightarrow> (r, Some (AttributeError ''title''))
      | Some title \<Rightarrow>
          (case e_link entry of
             None \<Rightarrow> (r, Some (AttributeError ''link''))
           | Some link \<Rightarrow>
               (let info = \<lparr> i_id = next_id (map i_id (infos (db r))),
                              i_title = title,
                              i_url = link,
                              i_source = (case f_title fd of None \<Rightarrow> py ''RSS'' | Some t \<Rightarrow> t),
                              i_content = (case e_summary entry of None \<Rightarrow> [] | Some c \<Rightarrow> c),
                              i_summary = None,
                              i_suggestion = None,
                              i_fetched_at = datetime_utcnow E \<rparr>;
                    r0 = session_commit E (r\<lparr>db := insert_info info (db r)\<rparr>);
                    r1 = r0\<lparr>events := events r0 @ [Info_Committed (i_id info)]\<rparr>
                in case for_users E info us r1 of
                     (r2, Some f) \<Rightarrow> (r2, Some f)
                   | (r2, None) \<Rightarrow> (session_commit E r2, None))))"

text \<open>The loop over the first three entries of a feed (line 80).\<close>

fun for_entries :: "env \<Rightarrow> feed \<Rightarrow> user list \<Rightarrow> entry list \<Rightarrow> run \<Rightarrow> run \<times> fault option" where
  "for_entries E fd us [] r = (r, None)"
| "for_entries E fd us (entry # rest) r =
     (case process_entry E fd us entry r of
        (r', Some f) \<Rightarrow> (r', Some f)
      | (r', None) \<Rightarrow> for_entries E fd us rest r')"

text \<open>The loop over the configured feeds (lines 78 to 80).\<close>

fun for_feeds :: "env \<Rightarrow> user list \<Rightarrow> pystr list \<Rightarrow> run \<Rightarrow> run \<times> fault option" where
  "for_feeds E us [] r = (r, None)"
| "for_feeds E us (rss # rest) r =
     (case feedparser_parse E rss of
        Inl f \<Rightarrow> (r, Some f)
      | Inr fd \<Rightarrow>
          (case for_entries E fd us (take 3 (f_entries fd)) r of
             (r', Some f) \<Rightarrow> (r', Some f)
           | (r', None) \<Rightarrow> for_feeds E us rest r'))"

text \<open>
  \<open>fetch_and_summarize\<close> (lines 76 to 97): the users are read once, when the job starts.
  The result is the state the run ends in, with the fault that ended it, if any; the store
  the run leaves is \<open>db\<close> of that state.
\<close>

definition fetch_and_summarize :: "env \<Rightarrow> store \<Rightarrow> run \<times> fault option" where
  "fetch_and_summarize E s =
     for_feeds E (users s) (RSS_URLS E)
       \<lparr> db = s, pending = [], events = [], requests = 0 \<rparr>"

text \<open>
  The stores the system can be in: the empty store, and the store any run of the job or
  any request leaves.
\<close>

inductive reachable :: "store \<Rightarrow> bool" where
  reach_empty: "reachable empty_store"
| reach_ingest: "reachable s \<Longrightarrow> reachable (db (fst (fetch_and_summarize E s)))"
| reach_register: "reachable s \<Longrightarrow> reachable (snd (register_user utcnow s data))"
| reach_today: "reachable s \<Longrightarrow> reachable (snd (get_today today s user_id))"
| reach_complete: "reachable s \<Longrightarrow> reachable (snd (complete_task s cdata))"

text \<open>
  The answers of the Summarization Client in the loop over the users, for an Info with the
  given title and content: the answer to the request number \<open>n\<close> for the first user, to the
  request number \<open>n + 1\<close> for the second, and so on. The loop sees these answers as long as
  none of them is a fault.
\<close>

fun generated ::
  "env \<Rightarrow> nat \<Rightarrow> pystr \<Rightarrow> pystr \<Rightarrow> user list \<Rightarrow> (fault + pystr \<times> pystr) list" where
  "generated E n title content [] = []"
| "generated E n title content (user # rest) =
     generate_summary_and_suggestion (requests_post E n) (u_profession user) title content
       # generated E (Suc n) title content rest"

text \<open>
  The texts the database stores: SQLite keeps text as UTF-8, and a string with a surrogate
  code point (U+D800 to U+DFFF) has no UTF-8 encoding.
\<close>

definition sqlite_text :: "pystr \<Rightarrow> bool" where
  "sqlite_text t \<longleftrightarrow> (\<forall>c\<in>set t. c < 55296 \<or> 57343 < c)"

section \<open>Sample data\<close>

text \<open>A store with three Push rows of one day, used to evaluate the handlers.\<close>

definition sample_users :: "user list" where
  "sample_users =
     [\<lparr> u_id = 1, u_profession = py ''nurse'', u_field = None, u_contact = None,
         u_created_at = 0 \<rparr>,
      \<lparr> u_id = 2, u_profession = py ''welder'', u_field = None, u_contact = None,
         u_created_at = 0 \<rparr>]"

definition sample_info :: info where
  "sample_info =
     \<lparr> i_id = 1, i_title = py ''T'', i_url = py ''L'', i_source = py ''RSS'',
       i_content = py ''C'', i_summary = Some (py ''S''), i_suggestion = Some (py ''b''),
       i_fetched_at = 0 \<rparr>"

definition sample_push1 :: push where
  "sample_push1 =
     \<lparr> p_id = 1, p_date = 7, p_user_id = 1, p_info_id = 1, p_suggestion = py ''a'',
       p_pushed = False, p_done = True \<rparr>"

definition sample_push2 :: push where
  "sample_push2 =
     \<lparr> p_id = 2, p_date = 7, p_user_id = 1, p_info_id = 1, p_suggestion = py ''b'',
       p_pushed = False, p_done = False \<rparr>"

definition sample_push3 :: push where
  "sample_push3 =
     \<lparr> p_id = 3, p_date = 7, p_user_id = 2, p_info_id = 9, p_suggestion = py ''c'',
       p_pushed = False, p_done = False \<rparr>"

definition sample_store :: store where
  "sample_store =
     \<lparr> users = sample_users,
       infos = [sample_info],
       pushes = [sample_push1, sample_push2, sample_push3] \<rparr>"

text \<open>
  A feed of four entries, and surroundings in which the endpoint answers the request
  number \<open>n\<close> with a summary, a line feed, the delimiter and a suggestion: A and a to
  the requests of even number, B and b to the others.
\<close>

definition sample_entry :: "nat \<Rightarrow> entry" where
  "sample_entry n = \<lparr> e_title = Some [84, n], e_link = Some [76, n], e_summary = None \<rparr>"

definition sample_feed :: feed where
  "sample_feed =
     \<lparr> f_title = None,
       f_entries = [sample_entry 49, sample_entry 50, sample_entry 51, sample_entry 52] \<rparr>"

definition sample_env :: env where
  "sample_env =
     \<lparr> RSS_URLS = [py ''feed''],
       feedparser_parse = (\<lambda>rss. Inr sample_feed),
       requests_post = (\<lambda>n pl. Inr ([65 + n mod 2, 10] @ delimiter @ [97 + n mod 2])),
       date_today = 7,
       datetime_utcnow = 0 \<rparr>"

definition sample_run :: run where
  "sample_run = \<lparr> db = sample_store, pending = [], events = [], requests = 0 \<rparr>"

text \<open>The store after two registrations on a new database.\<close>

definition registered_store :: store where
  "registered_store =
     snd (register_user 0
            (snd (register_user 0 empty_store [''profession'' \<mapsto> Some (py ''nurse'')]))
            [''profession'' \<mapsto> Some (py ''welder''), ''field'' \<mapsto> Some (py ''AI'')])"

text \<open>
  The same surroundings with a completion endpoint that is down, and with a feed whose
  second entry has no title.
\<close>

definition faulty_env :: env where
  "faulty_env = sample_env\<lparr>requests_post := (\<lambda>n pl. Inl (ExternalFault ''ConnectionError''))\<rparr>"

definition untitled_feed :: feed where
  "untitled_feed =
     \<lparr> f_title = None,
       f_entries = [sample_entry 49, (sample_entry 50)\<lparr>e_title := None\<rparr>, sample_entry 51] \<rparr>"

definition untitled_env :: env where
  "untitled_env = sample_env\<lparr>feedparser_parse := (\<lambda>rss. Inr untitled_feed)\<rparr>"

section \<open>Properties of the Summarization Client\<close>

text \<open>The split is never empty, so \<open>parts[0]\<close> is always there.\<close>

lemma py_split_nonempty: "py_split sep t \<noteq> []"
  by (induction sep t rule: py_split.induct) (auto split: list.splits)

lemma py_split_absent: "\<not> sublist sep t \<Longrightarrow> py_split sep t = [t]"
proof (induction t)
  case Nil
  then show ?case by simp
next
  case (Cons c cs)
  from Cons.prems have np: "\<not> prefix sep (c # cs)" and ns: "\<not> sublist sep cs"
    by (auto simp: sublist_Cons_right)
  from Cons.IH [OF ns] np show ?case by simp
qed

lemma prefix_overlap:
  assumes "prefix sep (x @ sep @ b)" "x \<noteq> []"
  shows "prefix sep (x @ butlast sep)"
proof (cases "sep = []")
  case True
  then show ?thesis by simp
next
  case False
  have "length sep \<le> length (x @ butlast sep)" using assms(2) False
    by (cases x) auto
  moreover have "prefix (x @ butlast sep) (x @ sep @ b)"
    using False by (metis append_butlast_last_id append.assoc prefix_def same_prefix_prefix)
  ultimately show ?thesis using assms(1)
    by (meson prefix_length_prefix)
qed

lemma py_split_first:
  "sep \<noteq> [] \<Longrightarrow> \<not> sublist sep (a @ butlast sep) \<Longrightarrow>
   py_split sep (a @ sep @ b) = a # py_split sep b"
proof (induction a)
  case Nil
  then obtain s ss where sep: "sep = s # ss" by (cases sep) auto
  show ?case by (simp add: sep)
next
  case (Cons c a)
  have np: "\<not> prefix sep (c # a @ sep @ b)"
  proof
    assume "prefix sep (c # a @ sep @ b)"
    then have "prefix sep ((c # a) @ butlast sep)"
      using prefix_overlap [of sep "c # a" b] by simp
    then show False using Cons.prems(2) by (auto simp: sublist_Cons_right)
  qed
  have ns: "\<not> sublist sep (a @ butlast sep)"
    using Cons.prems(2) by (auto simp: sublist_Cons_right)
  from Cons.IH [OF Cons.prems(1) ns] np show ?case by simp
qed

lemma delimiter_nonempty: "delimiter \<noteq> []"
  by (simp add: delimiter_def)

lemma parse_completion_absent:
  "\<not> sublist delimiter text \<Longrightarrow> parse_completion text = (py_strip text, [])"
  by (simp add: parse_completion_def py_split_absent)

lemma parse_completion_once:
  assumes "\<not> sublist delimiter (a @ butlast delimiter)" and "\<not> sublist delimiter b"
  shows "parse_completion (a @ delimiter @ b) = (py_strip a, py_strip b)"
  using assms
  by (simp add: parse_completion_def py_split_first [OF delimiter_nonempty] py_split_absent)

lemma parse_completion_twice:
  assumes "\<not> sublist delimiter (a @ butlast delimiter)"
    and "\<not> sublist delimiter (b @ butlast delimiter)"
  shows "parse_completion (a @ delimiter @ b @ delimiter @ c) = (py_strip a, py_strip b)"
  using assms
  by (simp add: parse_completion_def py_split_first [OF delimiter_nonempty])

text \<open>
  C3, as amended. When the completion endpoint answers with the text \<open>reply\<close>: if the
  delimiter does not occur in it, the summary is the whole text with leading and trailing
  white space stripped and the suggestion is empty; if it occurs, the summary is the part
  before the first occurrence, stripped, and the suggestion is the part after it, up to the
  next occurrence of the delimiter when there is one, stripped. (That \<open>a\<close> has no
  occurrence of the delimiter, not even one that begins in \<open>a\<close> and ends in the delimiter
  after it, says that the delimiter after \<open>a\<close> is the first occurrence.)
\<close>

theorem generate_summary_and_suggestion_parts:
  assumes "post (build_payload profession title content) = Inr reply"
  shows "(\<not> sublist delimiter reply \<longrightarrow>
            generate_summary_and_suggestion post profession title content =
              Inr (py_strip reply, []))
       \<and> (\<forall>a b. reply = a @ delimiter @ b \<and> \<not> sublist delimiter (a @ butlast delimiter)
                 \<and> \<not> sublist delimiter b \<longrightarrow>
            generate_summary_and_suggestion post profession title content =
              Inr (py_strip a, py_strip b))
       \<and> (\<forall>a b c. reply = a @ delimiter @ b @ delimiter @ c
                 \<and> \<not> sublist delimiter (a @ butlast delimiter)
                 \<and> \<not> sublist delimiter (b @ butlast delimiter) \<longrightarrow>
            generate_summary_and_suggestion post profession title content =
              Inr (py_strip a, py_strip b))"
  using assms
  by (simp add: generate_summary_and_suggestion_def parse_completion_absent
      parse_completion_once parse_completion_twice)

theorem generate_summary_and_suggestion_parts_witness:
  "generate_summary_and_suggestion (\<lambda>pl. Inr [32, 65, 10]) [] [] [] = Inr ([65], [])
   \<and> generate_summary_and_suggestion (\<lambda>pl. Inr ([65, 10] @ delimiter @ [32, 66])) [] [] [] =
       Inr ([65], [66])
   \<and> generate_summary_and_suggestion
       (\<lambda>pl. Inr ([65] @ delimiter @ [66] @ delimiter @ [67])) [] [] [] = Inr ([65], [66])"
proof -
  have n1: "\<not> sublist delimiter [32, 65, 10]"
    by (simp add: delimiter_def sublist_Cons_right)
  have n2: "\<not> sublist delimiter ([65, 10] @ butlast delimiter)" "\<not> sublist delimiter [32, 66]"
    by (simp_all add: delimiter_def sublist_Cons_right)
  have n3: "\<not> sublist delimiter ([65] @ butlast delimiter)"
    "\<not> sublist delimiter ([66] @ butlast delimiter)"
    by (simp_all add: delimiter_def sublist_Cons_right)
  have s: "py_strip [32, 65, 10] = [65]" "py_strip [65, 10] = [65]" "py_strip [32, 66] = [66]"
    "py_strip [65] = [65]" "py_strip [66] = [66]"
    by (simp_all add: py_strip_def py_isspace_def)
  have c1: "generate_summary_and_suggestion (\<lambda>pl. Inr [32, 65, 10]) [] [] [] = Inr ([65], [])"
    using generate_summary_and_suggestion_parts
      [where post = "\<lambda>pl. Inr [32, 65, 10]" and reply = "[32, 65, 10]"
        and profession = "[]" and title = "[]" and content = "[]"] n1 s
    by simp
  have c2: "generate_summary_and_suggestion (\<lambda>pl. Inr ([65, 10] @ delimiter @ [32, 66])) [] [] [] =
       Inr ([65], [66])"
    using generate_summary_and_suggestion_parts
      [where post = "\<lambda>pl. Inr ([65, 10] @ delimiter @ [32, 66])"
        and reply = "[65, 10] @ delimiter @ [32, 66]"
        and profession = "[]" and title = "[]" and content = "[]"] n2 s
    by (metis (no_types, lifting))
  have c3: "generate_summary_and_suggestion
       (\<lambda>pl. Inr ([65] @ delimiter @ [66] @ delimiter @ [67])) [] [] [] = Inr ([65], [66])"
    using generate_summary_and_suggestion_parts
      [where post = "\<lambda>pl. Inr ([65] @ delimiter @ [66] @ delimiter @ [67])"
        and reply = "[65] @ delimiter @ [66] @ delimiter @ [67]"
        and profession = "[]" and title = "[]" and content = "[]"] n3 s
    by (metis (no_types, lifting))
  show ?thesis using c1 c2 c3 by (intro conjI)
qed

text \<open>
  The claim C3 as it is stated fails: the parts are stripped of white space (a summary
  ending in a line feed loses it; an answer without delimiter that begins with a space does
  not become the summary whole), and after a second delimiter the rest of the text is
  dropped from the suggestion.
\<close>

theorem parse_completion_keeps_parts_counterexample:
  "generate_summary_and_suggestion (\<lambda>pl. Inr ([65, 10] @ delimiter @ [66])) [] [] [] \<noteq>
     Inr ([65, 10], [66])
   \<and> generate_summary_and_suggestion (\<lambda>pl. Inr ([65] @ delimiter @ [66] @ delimiter @ [67]))
       [] [] [] \<noteq> Inr ([65], [66] @ delimiter @ [67])
   \<and> \<not> sublist delimiter [32, 65]
   \<and> generate_summary_and_suggestion (\<lambda>pl. Inr [32, 65]) [] [] [] \<noteq> Inr ([32, 65], [])"
  by (simp add: generate_summary_and_suggestion_def parse_completion_def delimiter_def
      py_strip_def py_isspace_def sublist_Cons_right)

section \<open>Properties of the API layer\<close>

lemmas sample_defs = sample_store_def sample_users_def sample_info_def sample_push1_def
  sample_push2_def sample_push3_def

lemma find_first:
  "xs = pre @ x # post \<Longrightarrow> \<forall>y\<in>set pre. \<not> P y \<Longrightarrow> P x \<Longrightarrow> find P xs = Some x"
  by (induction pre arbitrary: xs) auto

lemma find_key:
  "x \<in> set xs \<Longrightarrow> \<exists>y. find (\<lambda>q. f q = f x) xs = Some y \<and> f y = f x"
  by (induction xs) auto

text \<open>
  C4, as amended. \<open>GET /api/today/{user_id}\<close>: when \<open>p\<close> is the first Push row of the
  table that is dated today and belongs to the user, and its \<open>info_id\<close> resolves to the
  Info row \<open>i\<close>, the response is 200 with the title and the summary of \<open>i\<close> and the
  suggestion and the done flag of \<open>p\<close>, as stored, and the store is unchanged. A later Push
  row of the same user and day is not the one returned. (The identifier is one the route
  accepts and the database holds, as every identifier the program stores is: not negative
  and below \<open>2 ^ 63\<close>.)
\<close>

theorem get_today_first_push:
  assumes "pushes s = pre @ p # post"
    and "\<forall>q\<in>set pre. \<not> (p_user_id q = user_id \<and> p_date q = today)"
    and "p_user_id p = user_id" and "p_date p = today"
    and "Info_query_get s (p_info_id p) = Some i"
    and "0 \<le> user_id" and "user_id < 2 ^ 63"
  shows "get_today today s user_id =
           (Inr (200, JObj [(''title'', JStr (i_title i)),
                            (''summary'', json_of_optional (i_summary i)),
                            (''suggestion'', JStr (p_suggestion p)),
                            (''done'', JBool (p_done p))]), s)"
proof -
  have "find (\<lambda>q. p_user_id q = user_id \<and> p_date q = today) (pushes s) = Some p"
    by (rule find_first [OF assms(1)]) (use assms in auto)
  then have "Push_query_first s user_id today = Inr (Some p)"
    using assms(6) assms(7) by (simp add: Push_query_first_def sqlite_integer_def)
  then show ?thesis using assms(5) assms(6) by (simp add: get_today_def)
qed

theorem get_today_first_push_witness:
  "get_today 7 sample_store 1 =
     (Inr (200, JObj [(''title'', JStr (py ''T'')), (''summary'', JStr (py ''S'')),
                      (''suggestion'', JStr (py ''a'')), (''done'', JBool True)]),
      sample_store)"
proof -
  have a: "pushes sample_store = [] @ sample_push1 # [sample_push2, sample_push3]"
    by (simp add: sample_store_def)
  have b: "\<forall>q\<in>set []. \<not> (p_user_id q = 1 \<and> p_date q = 7)" by simp
  have c: "p_user_id sample_push1 = 1" "p_date sample_push1 = 7"
    by (simp_all add: sample_push1_def)
  have d: "Info_query_get sample_store (p_info_id sample_push1) = Some sample_info"
    by (simp add: Info_query_get_def sample_defs)
  have e: "(0::int) \<le> 1" "(1::int) < 2 ^ 63" by simp_all
  from get_today_first_push [OF a b c d e] show ?thesis
    by (simp add: sample_info_def sample_push1_def json_of_optional_def)
qed

text \<open>
  The claim C4 as it is stated, for any Push row dated today of the user, fails: the second
  row of the sample store is such a row, its Info exists, and the response is not built from
  it (the handler answers with the first row).
\<close>

theorem get_today_later_push_counterexample:
  "sample_push2 \<in> set (pushes sample_store)
   \<and> p_user_id sample_push2 = 1 \<and> p_date sample_push2 = 7
   \<and> Info_query_get sample_store (p_info_id sample_push2) = Some sample_info
   \<and> get_today 7 sample_store 1 \<noteq>
       (Inr (200, JObj [(''title'', JStr (i_title sample_info)),
                        (''summary'', json_of_optional (i_summary sample_info)),
                        (''suggestion'', JStr (p_suggestion sample_push2)),
                        (''done'', JBool (p_done sample_push2))]),
        sample_store)"
  by (simp add: get_today_def Push_query_first_def sqlite_integer_def Info_query_get_def
      sample_defs)

text \<open>
  C5, as amended. For a user identifier that the route accepts and the database can look
  up (not negative and below \<open>2 ^ 63\<close>): when the store has no Push row of the user dated
  today, \<open>GET /api/today/{user_id}\<close> returns status 404 with the body
  \<open>{"error": "No content yet"}\<close>, and the store is unchanged.
\<close>

theorem get_today_no_content:
  assumes "0 \<le> user_id" and "user_id < 2 ^ 63"
    and "\<forall>p\<in>set (pushes s). \<not> (p_user_id p = user_id \<and> p_date p = today)"
  shows "get_today today s user_id =
           (Inr (404, JObj [(''error'', JStr (py ''No content yet''))]), s)"
proof -
  have "Push_query_first s user_id today = Inr None"
    using assms by (simp add: Push_query_first_def sqlite_integer_def find_None_iff)
  then show ?thesis using assms(1) by (simp add: get_today_def)
qed

theorem get_today_no_content_witness:
  "list_all (\<lambda>p. \<not> (p_user_id p = 3 \<and> p_date p = 7)) (pushes sample_store)
   \<and> get_today 7 sample_store 3 =
       (Inr (404, JObj [(''error'', JStr (py ''No content yet''))]), sample_store)"
proof -
  have r: "(0::int) \<le> 3" "(3::int) < 2 ^ 63" by simp_all
  have h: "\<forall>p\<in>set (pushes sample_store). \<not> (p_user_id p = 3 \<and> p_date p = 7)"
    by (simp add: sample_defs)
  from get_today_no_content [OF r h] h show ?thesis
    by (simp add: list_all_iff)
qed

text \<open>
  The claim C5 as it is stated, for every user identifier, fails: the sample store has no
  Push row of the user \<open>2 ^ 63\<close>, and the request ends with \<open>OverflowError\<close>, not with the
  404 response; for the identifier \<open>-1\<close> the router answers, not the handler.
\<close>

theorem get_today_no_content_counterexample:
  "list_all (\<lambda>p. \<not> (p_user_id p = 9223372036854775808 \<and> p_date p = 7)) (pushes sample_store)
   \<and> get_today 7 sample_store 9223372036854775808 =
       (Inl (OverflowError ''Python int too large to convert to SQLite INTEGER''), sample_store)
   \<and> get_today 7 sample_store 9223372036854775808 \<noteq>
       (Inr (404, JObj [(''error'', JStr (py ''No content yet''))]), sample_store)
   \<and> get_today 7 sample_store (- 1) =
       (Inl (NotFound ''/api/today/<int:user_id>''), sample_store)"
  by (simp add: get_today_def Push_query_first_def sqlite_integer_def sample_defs)

text \<open>
  C6. When the store has a Push row with the key \<open>push_id\<close>, \<open>POST /api/complete\<close> returns
  \<open>{"status": "ok"}\<close> and leaves the store with the done flag of that row set and nothing
  else changed; the row is still there with its flag set, and a second call returns the same
  response and leaves the same store. (The key is that of a stored row, an integer the
  database holds.)
\<close>

theorem complete_task_done_idempotent:
  assumes "p \<in> set (pushes s)" and "data ''push_id'' = Some (p_id p)"
    and "sqlite_integer (p_id p)"
  shows "complete_task s data =
           (Inr (200, JObj [(''status'', JStr (py ''ok''))]),
            s\<lparr>pushes := map (\<lambda>q. if p_id q = p_id p then q\<lparr>p_done := True\<rparr> else q) (pushes s)\<rparr>)
         \<and> (\<forall>q\<in>set (pushes (snd (complete_task s data))). p_id q = p_id p \<longrightarrow> p_done q)
         \<and> (\<exists>q\<in>set (pushes (snd (complete_task s data))). p_id q = p_id p)
         \<and> complete_task (snd (complete_task s data)) data =
             (Inr (200, JObj [(''status'', JStr (py ''ok''))]), snd (complete_task s data))"
proof -
  let ?f = "\<lambda>q. if p_id q = p_id p then q\<lparr>p_done := True\<rparr> else q"
  let ?s' = "s\<lparr>pushes := map ?f (pushes s)\<rparr>"
  obtain y where y: "Push_query_get s (p_id p) = Inr (Some y)" "p_id y = p_id p"
    using find_key [OF assms(1), of p_id] assms(3) by (auto simp: Push_query_get_def)
  have first: "complete_task s data = (Inr (200, JObj [(''status'', JStr (py ''ok''))]), ?s')"
    using y assms(2) by (simp add: complete_task_def)
  have in': "?f p \<in> set (pushes ?s')" using assms(1) by simp
  have key: "p_id (?f p) = p_id p" by simp
  obtain z where z: "Push_query_get ?s' (p_id p) = Inr (Some z)" "p_id z = p_id p"
    using find_key [OF in', of p_id] assms(3) by (auto simp: Push_query_get_def)
  have idem: "map ?f (map ?f (pushes s)) = map ?f (pushes s)" by simp
  have second: "complete_task ?s' data = (Inr (200, JObj [(''status'', JStr (py ''ok''))]), ?s')"
    using z assms(2) idem by (simp add: complete_task_def)
  have dn: "\<forall>q\<in>set (pushes ?s'). p_id q = p_id p \<longrightarrow> p_done q" by auto
  have ex: "\<exists>q\<in>set (pushes ?s'). p_id q = p_id p" using in' key by blast
  have sn: "snd (complete_task s data) = ?s'" by (simp only: first snd_conv)
  show ?thesis unfolding sn by (intro conjI first second dn ex)
qed

theorem complete_task_done_idempotent_witness:
  "complete_task sample_store [''push_id'' \<mapsto> 2] =
     (Inr (200, JObj [(''status'', JStr (py ''ok''))]),
      sample_store\<lparr>pushes := [sample_push1, sample_push2\<lparr>p_done := True\<rparr>, sample_push3]\<rparr>)
   \<and> complete_task (snd (complete_task sample_store [''push_id'' \<mapsto> 2])) [''push_id'' \<mapsto> 2] =
     (Inr (200, JObj [(''status'', JStr (py ''ok''))]),
      sample_store\<lparr>pushes := [sample_push1, sample_push2\<lparr>p_done := True\<rparr>, sample_push3]\<rparr>)"
proof -
  have a: "sample_push2 \<in> set (pushes sample_store)" by (simp add: sample_store_def)
  have b: "[''push_id'' \<mapsto> (2::int)] ''push_id'' = Some (p_id sample_push2)"
    by (simp add: sample_push2_def)
  have c: "map (\<lambda>q. if p_id q = p_id sample_push2 then q\<lparr>p_done := True\<rparr> else q)
             (pushes sample_store) = [sample_push1, sample_push2\<lparr>p_done := True\<rparr>, sample_push3]"
    by (simp add: sample_defs)
  have k: "sqlite_integer (p_id sample_push2)"
    by (simp add: sqlite_integer_def sample_push2_def)
  note t = complete_task_done_idempotent [where data = "[''push_id'' \<mapsto> 2]"
      and p = sample_push2 and s = sample_store, OF a b k]
  from t have f: "complete_task sample_store [''push_id'' \<mapsto> 2] =
      (Inr (200, JObj [(''status'', JStr (py ''ok''))]),
       sample_store\<lparr>pushes := [sample_push1, sample_push2\<lparr>p_done := True\<rparr>, sample_push3]\<rparr>)"
    unfolding c by (rule conjunct1)
  from t have g: "complete_task (snd (complete_task sample_store [''push_id'' \<mapsto> 2]))
       [''push_id'' \<mapsto> 2] =
      (Inr (200, JObj [(''status'', JStr (py ''ok''))]),
       snd (complete_task sample_store [''push_id'' \<mapsto> 2]))"
    by blast
  have sn: "snd (complete_task sample_store [''push_id'' \<mapsto> 2]) =
      sample_store\<lparr>pushes := [sample_push1, sample_push2\<lparr>p_done := True\<rparr>, sample_push3]\<rparr>"
    by (simp only: f snd_conv)
  from g have g': "complete_task (snd (complete_task sample_store [''push_id'' \<mapsto> 2]))
       [''push_id'' \<mapsto> 2] =
      (Inr (200, JObj [(''status'', JStr (py ''ok''))]),
       sample_store\<lparr>pushes := [sample_push1, sample_push2\<lparr>p_done := True\<rparr>, sample_push3]\<rparr>)"
    by (simp only: sn)
  show ?thesis by (rule conjI [OF f g'])
qed

text \<open>
  C7, as amended. For an integer \<open>push_id\<close> the database can look up (within the signed
  64-bit range): when no Push row has the key \<open>push_id\<close>, \<open>POST /api/complete\<close> returns
  status 404 with the body \<open>{"error": "Not found"}\<close>, and the store is unchanged.
\<close>

theorem complete_task_not_found:
  assumes "data ''push_id'' = Some push_id"
    and "sqlite_integer push_id"
    and "\<forall>p\<in>set (pushes s). p_id p \<noteq> push_id"
  shows "complete_task s data = (Inr (404, JObj [(''error'', JStr (py ''Not found''))]), s)"
proof -
  have "Push_query_get s push_id = Inr None"
    using assms(2) assms(3) by (simp add: Push_query_get_def find_None_iff)
  then show ?thesis using assms(1) by (simp add: complete_task_def)
qed

theorem complete_task_not_found_witness:
  "list_all (\<lambda>p. p_id p \<noteq> 99) (pushes sample_store)
   \<and> complete_task sample_store [''push_id'' \<mapsto> 99] =
       (Inr (404, JObj [(''error'', JStr (py ''Not found''))]), sample_store)
   \<and> complete_task sample_store [''push_id'' \<mapsto> - 5] =
       (Inr (404, JObj [(''error'', JStr (py ''Not found''))]), sample_store)"
proof -
  have a: "[''push_id'' \<mapsto> (99::int)] ''push_id'' = Some 99" by simp
  have k: "sqlite_integer 99" by (simp add: sqlite_integer_def)
  have b: "\<forall>p\<in>set (pushes sample_store). p_id p \<noteq> 99" by (simp add: sample_defs)
  have a': "[''push_id'' \<mapsto> (- 5::int)] ''push_id'' = Some (- 5)" by simp
  have k': "sqlite_integer (- 5)" by (simp add: sqlite_integer_def)
  have b': "\<forall>p\<in>set (pushes sample_store). p_id p \<noteq> - 5" by (simp add: sample_defs)
  from complete_task_not_found [where data = "[''push_id'' \<mapsto> 99]" and push_id = 99
      and s = sample_store, OF a k b]
    complete_task_not_found [where data = "[''push_id'' \<mapsto> - 5]" and push_id = "- 5"
      and s = sample_store, OF a' k' b'] b
  show ?thesis by (simp add: list_all_iff)
qed

text \<open>
  The claim C7 as it is stated, for every \<open>push_id\<close> that resolves to no row, fails: no
  row of the sample store has the key \<open>2 ^ 63\<close>, and the request ends with
  \<open>OverflowError\<close>, not with the 404 response.
\<close>

theorem complete_task_not_found_counterexample:
  "list_all (\<lambda>p. p_id p \<noteq> 9223372036854775808) (pushes sample_store)
   \<and> complete_task sample_store [''push_id'' \<mapsto> 9223372036854775808] =
       (Inl (OverflowError ''Python int too large to convert to SQLite INTEGER''), sample_store)
   \<and> complete_task sample_store [''push_id'' \<mapsto> 9223372036854775808] \<noteq>
       (Inr (404, JObj [(''error'', JStr (py ''Not found''))]), sample_store)"
  by (simp add: complete_task_def Push_query_get_def sqlite_integer_def sample_defs)

text \<open>
  C8. \<open>POST /api/register\<close> with a body that has no \<open>profession\<close> key: the handler raises
  \<open>KeyError\<close>, an unhandled fault, where the claim asks for a client-error response.
\<close>

theorem register_user_missing_profession:
  "register_user 0 empty_store [''field'' \<mapsto> Some (py ''AI'')] =
     (Inl (KeyError ''profession''), empty_store)"
  by (simp add: register_user_def)

text \<open>
  C9. When the first Push row of the user dated today has an \<open>info_id\<close> that no Info row
  has, \<open>GET /api/today/{user_id}\<close> raises \<open>AttributeError\<close>: the handler reads the title of
  the missing Info. The sample store is such a state. (The identifier is one the route
  accepts and the database holds, as every identifier the program stores is.)
\<close>

theorem get_today_missing_info:
  assumes "pushes s = pre @ p # post"
    and "\<forall>q\<in>set pre. \<not> (p_user_id q = user_id \<and> p_date q = today)"
    and "p_user_id p = user_id" and "p_date p = today"
    and "\<forall>i\<in>set (infos s). i_id i \<noteq> p_info_id p"
    and "0 \<le> user_id" and "user_id < 2 ^ 63"
  shows "get_today today s user_id = (Inl (AttributeError ''title''), s)"
proof -
  have "find (\<lambda>q. p_user_id q = user_id \<and> p_date q = today) (pushes s) = Some p"
    by (rule find_first [OF assms(1)]) (use assms in auto)
  then have "Push_query_first s user_id today = Inr (Some p)"
    using assms(6) assms(7) by (simp add: Push_query_first_def sqlite_integer_def)
  moreover have "Info_query_get s (p_info_id p) = None"
    using assms(5) by (simp add: Info_query_get_def find_None_iff)
  ultimately show ?thesis using assms(6) by (simp add: get_today_def)
qed

theorem get_today_missing_info_witness:
  "sample_push3 \<in> set (pushes sample_store)
   \<and> p_user_id sample_push3 = 2 \<and> p_date sample_push3 = 7
   \<and> Info_query_get sample_store (p_info_id sample_push3) = None
   \<and> get_today 7 sample_store 2 = (Inl (AttributeError ''title''), sample_store)"
proof -
  have a: "pushes sample_store = [sample_push1, sample_push2] @ sample_push3 # []"
    by (simp add: sample_store_def)
  have b: "\<forall>q\<in>set [sample_push1, sample_push2]. \<not> (p_user_id q = 2 \<and> p_date q = 7)"
    by (simp add: sample_defs)
  have c: "p_user_id sample_push3 = 2" "p_date sample_push3 = 7"
    by (simp_all add: sample_push3_def)
  have d: "\<forall>i\<in>set (infos sample_store). i_id i \<noteq> p_info_id sample_push3"
    by (simp add: sample_defs)
  have e: "(0::int) \<le> 2" "(2::int) < 2 ^ 63" by simp_all
  from get_today_missing_info [OF a b c d e] show ?thesis
    by (simp add: Info_query_get_def sample_defs)
qed

section \<open>Properties of the ingestion job\<close>

lemma next_id_fresh: "x \<in> set ids \<Longrightarrow> x < next_id ids"
proof -
  assume a: "x \<in> set ids"
  then have "ids \<noteq> []" by auto
  moreover have "x \<le> Max (set ids)" using a by simp
  ultimately show ?thesis by (simp add: next_id_def)
qed

lemma next_id_append: "next_id (ids @ [next_id ids]) = next_id ids + 1"
proof (cases "ids = []")
  case True
  then show ?thesis by (simp add: next_id_def)
next
  case False
  then have "Max (insert (Max (set ids) + 1) (set ids)) = Max (set ids) + 1"
    by (simp add: max_def)
  then show ?thesis using False by (simp add: next_id_def)
qed

lemma flush_append: "flush t (a @ b) ps = flush t b (flush t a ps)"
  by (induction t a ps rule: flush.induct) simp_all

lemma flush_rows:
  "\<exists>rows. flush t items ps = ps @ rows
     \<and> map (\<lambda>p. (p_user_id p, p_info_id p, p_suggestion p)) rows = items
     \<and> (\<forall>p\<in>set rows. p_date p = t \<and> \<not> p_pushed p \<and> \<not> p_done p)"
proof (induction t items ps rule: flush.induct)
  case (1 today ps)
  show ?case by simp
next
  case (2 today user_id info_id suggestion rest ps)
  let ?row = "\<lparr> p_id = next_id (map p_id ps), p_date = today, p_user_id = user_id,
                 p_info_id = info_id, p_suggestion = suggestion, p_pushed = False,
                 p_done = False \<rparr>"
  from 2 obtain rows where rows: "flush today rest (ps @ [?row]) = (ps @ [?row]) @ rows"
    "map (\<lambda>p. (p_user_id p, p_info_id p, p_suggestion p)) rows = rest"
    "\<forall>p\<in>set rows. p_date p = today \<and> \<not> p_pushed p \<and> \<not> p_done p"
    by blast
  show ?case
    by (rule exI [of _ "?row # rows"]) (use rows in simp)
qed

lemma update_twice:
  "i_id b = i_id a \<Longrightarrow>
   map (\<lambda>i. if i_id i = i_id b then b else i) (map (\<lambda>i. if i_id i = i_id a then a else i) xs) =
   map (\<lambda>i. if i_id i = i_id a then b else i) xs"
  by (induction xs) auto

lemma generated_length: "generated E n t c us = map Inr ys \<Longrightarrow> length ys = length us"
proof (induction us arbitrary: n ys)
  case Nil
  then show ?case by simp
next
  case (Cons u us)
  then obtain y ys' where ys: "ys = y # ys'" by (cases ys) auto
  with Cons.prems have "generated E (Suc n) t c us = map Inr ys'" by simp
  from Cons.IH [OF this] ys show ?case by simp
qed

lemma generated_nth:
  "generated E n t c us = map Inr ys \<Longrightarrow> k < length us \<Longrightarrow>
   generate_summary_and_suggestion (requests_post E (n + k)) (u_profession (us ! k)) t c =
     Inr (ys ! k)"
proof (induction us arbitrary: n ys k)
  case Nil
  then show ?case by simp
next
  case (Cons u us)
  then obtain y ys' where ys: "ys = y # ys'" by (cases ys) auto
  with Cons.prems have hd: "generate_summary_and_suggestion (requests_post E n) (u_profession u) t c = Inr y"
    and tl: "generated E (Suc n) t c us = map Inr ys'" by simp_all
  show ?case
  proof (cases k)
    case 0
    then show ?thesis using hd ys by simp
  next
    case (Suc j)
    then have "j < length us" using Cons.prems(2) by simp
    from Cons.IH [OF tl this] Suc ys show ?thesis by simp
  qed
qed

lemma generated_total:
  "\<forall>k<length us. \<forall>pl. \<exists>reply. requests_post E (n + k) pl = Inr reply \<Longrightarrow>
   \<exists>ys. generated E n t c us = map Inr ys"
proof (induction us arbitrary: n)
  case Nil
  show ?case by simp
next
  case (Cons u us)
  from Cons.prems [rule_format, of 0] obtain reply where
    "requests_post E n (build_payload (u_profession u) t c) = Inr reply" by auto
  then have hd: "generate_summary_and_suggestion (requests_post E n) (u_profession u) t c =
      Inr (parse_completion reply)"
    by (simp add: generate_summary_and_suggestion_def)
  have "\<forall>k<length us. \<forall>pl. \<exists>reply. requests_post E (Suc n + k) pl = Inr reply"
  proof (intro allI impI)
    fix k pl assume "k < length us"
    then have "Suc k < length (u # us)" by simp
    from Cons.prems [rule_format, OF this, of pl]
    show "\<exists>reply. requests_post E (Suc n + k) pl = Inr reply" by simp
  qed
  from Cons.IH [OF this] obtain ys where "generated E (Suc n) t c us = map Inr ys"
    by blast
  with hd have "generated E n t c (u # us) = map Inr (parse_completion reply # ys)" by simp
  then show ?case by blast
qed

lemma info_present_update:
  "i_id b = k \<Longrightarrow>
   (find (\<lambda>i. i_id i = k) (map (\<lambda>i. if i_id i = k then b else i) xs) \<noteq> None) =
   (find (\<lambda>i. i_id i = k) xs \<noteq> None)"
  by (induction xs) auto

text \<open>The users' loop when no call faults.\<close>

lemma for_users_ok:
  assumes "generated E (requests r) (i_title info) (i_content info) us = map Inr ys"
  shows "snd (for_users E info us r) = None
    \<and> requests (fst (for_users E info us r)) = requests r + length us
    \<and> events (fst (for_users E info us r)) =
        events r @ map (\<lambda>u. Summarize_Called (i_id info) (u_id u)
                               (Info_query_get (db r) (i_id info) \<noteq> None)) us
    \<and> users (db (fst (for_users E info us r))) = users (db r)
    \<and> infos (db (fst (for_users E info us r))) =
        (if us = [] then infos (db r)
         else map (\<lambda>i. if i_id i = i_id info
                        then info\<lparr>i_summary := Some (fst (last ys)),
                                  i_suggestion := Some (snd (last ys))\<rparr>
                        else i) (infos (db r)))
    \<and> flush (date_today E) (pending (fst (for_users E info us r)))
          (pushes (db (fst (for_users E info us r)))) =
        flush (date_today E)
          (pending r @ map2 (\<lambda>u y. (u_id u, i_id info, snd y)) us ys) (pushes (db r))"
  using assms
proof (induction us arbitrary: r info ys)
  case Nil
  then show ?case by simp
next
  case (Cons u us)
  from Cons.prems obtain y ys' where ys: "ys = y # ys'" by (cases ys) auto
  obtain summary suggestion where y: "y = (summary, suggestion)" by (cases y)
  from Cons.prems ys have
    hd: "generate_summary_and_suggestion (requests_post E (requests r)) (u_profession u)
           (i_title info) (i_content info) = Inr y"
    and tl: "generated E (Suc (requests r)) (i_title info) (i_content info) us = map Inr ys'"
    by simp_all
  define info' where "info' = info\<lparr>i_summary := Some summary, i_suggestion := Some suggestion\<rparr>"
  define r2 where "r2 =
      r\<lparr> events := events r @ [Summarize_Called (i_id info) (u_id u)
                                    (Info_query_get (db r) (i_id info) \<noteq> None)],
         requests := Suc (requests r),
         db := (db r)\<lparr> infos := map (\<lambda>i. if i_id i = i_id info then info' else i) (infos (db r)),
                        pushes := flush (date_today E) (pending r) (pushes (db r)) \<rparr>,
         pending := [(u_id u, i_id info, suggestion)] \<rparr>"
  have step: "for_users E info (u # us) r = for_users E info' us r2"
    unfolding r2_def info'_def using hd y
    by (simp add: Let_def session_commit_def update_info_def)
  have tl': "generated E (requests r2) (i_title info') (i_content info') us = map Inr ys'"
    using tl by (simp add: info'_def r2_def)
  note IH = Cons.IH [OF tl']
  have id': "i_id info' = i_id info" by (simp add: info'_def)
  have present: "(Info_query_get (db r2) (i_id info) \<noteq> None) =
      (Info_query_get (db r) (i_id info) \<noteq> None)"
    unfolding Info_query_get_def
    using info_present_update [OF id', of "infos (db r)"] by (simp add: r2_def)
  have len: "length ys' = length us" using tl by (rule generated_length)
  show ?case
  proof (cases "us = []")
    case True
    then have "ys' = []" using len by simp
    then show ?thesis unfolding step using True ys y
      by (simp add: r2_def info'_def flush_append)
  next
    case False
    then have ne: "ys' \<noteq> []" using len by auto
    have last: "last ys = last ys'" using ys ne by simp
    have upd: "info'\<lparr>i_summary := Some (fst (last ys')), i_suggestion := Some (snd (last ys'))\<rparr> =
        info\<lparr>i_summary := Some (fst (last ys')), i_suggestion := Some (snd (last ys'))\<rparr>"
      by (simp add: info'_def)
    have infos2: "infos (db r2) = map (\<lambda>i. if i_id i = i_id info then info' else i) (infos (db r))"
      by (simp add: r2_def)
    have fl: "flush (date_today E) (pending r2 @ map2 (\<lambda>u y. (u_id u, i_id info', snd y)) us ys')
               (pushes (db r2)) =
             flush (date_today E)
               (pending r @ map2 (\<lambda>u y. (u_id u, i_id info, snd y)) (u # us) ys) (pushes (db r))"
      using ys y by (simp add: r2_def id' flush_append)
    have c1: "snd (for_users E info' us r2) = None" using IH by blast
    have c2: "requests (fst (for_users E info' us r2)) = requests r + length (u # us)"
      using IH by (simp add: r2_def)
    have c3: "events (fst (for_users E info' us r2)) =
        events r @ map (\<lambda>u. Summarize_Called (i_id info) (u_id u)
                               (Info_query_get (db r) (i_id info) \<noteq> None)) (u # us)"
    proof -
      have a: "events (fst (for_users E info' us r2)) =
          events r2 @ map (\<lambda>u. Summarize_Called (i_id info') (u_id u)
                                 (Info_query_get (db r2) (i_id info') \<noteq> None)) us"
        using IH by blast
      have b: "events r2 = events r @ [Summarize_Called (i_id info) (u_id u)
                                        (Info_query_get (db r) (i_id info) \<noteq> None)]"
        by (simp add: r2_def)
      show ?thesis unfolding a b id' present by simp
    qed
    have c4: "users (db (fst (for_users E info' us r2))) = users (db r)"
      using IH by (simp add: r2_def)
    have c5: "infos (db (fst (for_users E info' us r2))) =
        map (\<lambda>i. if i_id i = i_id info
                  then info\<lparr>i_summary := Some (fst (last ys)), i_suggestion := Some (snd (last ys))\<rparr>
                  else i) (infos (db r))"
    proof -
      have "infos (db (fst (for_users E info' us r2))) =
          map (\<lambda>i. if i_id i = i_id info'
                    then info'\<lparr>i_summary := Some (fst (last ys')),
                               i_suggestion := Some (snd (last ys'))\<rparr>
                    else i) (infos (db r2))"
        using IH False by simp
      also have "\<dots> = map (\<lambda>i. if i_id i = i_id info
                    then info\<lparr>i_summary := Some (fst (last ys')),
                              i_suggestion := Some (snd (last ys'))\<rparr>
                    else i) (infos (db r))"
        unfolding infos2 upd id'
        using update_twice [of "info\<lparr>i_summary := Some (fst (last ys')),
                              i_suggestion := Some (snd (last ys'))\<rparr>" info' "infos (db r)"]
        by (simp add: id')
      finally show ?thesis by (simp add: last)
    qed
    have c6: "flush (date_today E) (pending (fst (for_users E info' us r2)))
          (pushes (db (fst (for_users E info' us r2)))) =
        flush (date_today E)
          (pending r @ map2 (\<lambda>u y. (u_id u, i_id info, snd y)) (u # us) ys) (pushes (db r))"
      using IH fl by simp
    show ?thesis unfolding step using c1 c2 c3 c4 c5 c6 by simp
  qed
qed

lemma find_appended:
  "\<forall>i\<in>set xs. \<not> P i \<Longrightarrow> P x \<Longrightarrow> find P (xs @ [x]) = Some x"
  by (induction xs) auto

text \<open>One entry when nothing faults.\<close>

lemma process_entry_ok:
  assumes t: "e_title e = Some title" and l: "e_link e = Some link"
    and p: "pending r = []"
    and g: "generated E (requests r) title (case e_summary e of None \<Rightarrow> [] | Some c \<Rightarrow> c) us =
              map Inr ys"
  shows "snd (process_entry E fd us e r) = None
    \<and> pending (fst (process_entry E fd us e r)) = []
    \<and> requests (fst (process_entry E fd us e r)) = requests r + length us
    \<and> events (fst (process_entry E fd us e r)) =
        events r @ Info_Committed (next_id (map i_id (infos (db r))))
          # map (\<lambda>u. Summarize_Called (next_id (map i_id (infos (db r)))) (u_id u) True) us
    \<and> users (db (fst (process_entry E fd us e r))) = users (db r)
    \<and> infos (db (fst (process_entry E fd us e r))) =
        infos (db r) @
          [\<lparr> i_id = next_id (map i_id (infos (db r))), i_title = title, i_url = link,
              i_source = (case f_title fd of None \<Rightarrow> py ''RSS'' | Some t \<Rightarrow> t),
              i_content = (case e_summary e of None \<Rightarrow> [] | Some c \<Rightarrow> c),
              i_summary = (if us = [] then None else Some (fst (last ys))),
              i_suggestion = (if us = [] then None else Some (snd (last ys))),
              i_fetched_at = datetime_utcnow E \<rparr>]
    \<and> pushes (db (fst (process_entry E fd us e r))) =
        flush (date_today E)
          (map2 (\<lambda>u y. (u_id u, next_id (map i_id (infos (db r))), snd y)) us ys)
          (pushes (db r))"
proof -
  define iid where "iid = next_id (map i_id (infos (db r)))"
  define info0 where "info0 =
     \<lparr> i_id = iid, i_title = title, i_url = link,
       i_source = (case f_title fd of None \<Rightarrow> py ''RSS'' | Some t \<Rightarrow> t),
       i_content = (case e_summary e of None \<Rightarrow> [] | Some c \<Rightarrow> c),
       i_summary = None, i_suggestion = None, i_fetched_at = datetime_utcnow E \<rparr>"
  define r1 where "r1 =
     r\<lparr> db := (db r)\<lparr>infos := infos (db r) @ [info0]\<rparr>,
        pending := [],
        events := events r @ [Info_Committed iid] \<rparr>"
  define r2 where "r2 = fst (for_users E info0 us r1)"
  have g1: "generated E (requests r1) (i_title info0) (i_content info0) us = map Inr ys"
    using g by (simp add: r1_def info0_def)
  note fu = for_users_ok [OF g1, folded r2_def]
  have res: "for_users E info0 us r1 = (r2, None)"
    using fu by (simp add: r2_def prod_eq_iff)
  have pe: "process_entry E fd us e r = (session_commit E r2, None)"
    using t l p res
    unfolding process_entry_def r1_def info0_def iid_def
    by (simp add: Let_def session_commit_def insert_info_def)
  have fresh: "\<forall>i\<in>set (infos (db r)). i_id i \<noteq> iid"
  proof
    fix i assume "i \<in> set (infos (db r))"
    then have "i_id i \<in> set (map i_id (infos (db r)))" by simp
    from next_id_fresh [OF this] show "i_id i \<noteq> iid" by (simp add: iid_def)
  qed
  have keep: "map (\<lambda>i. if i_id i = iid then x else i) (infos (db r)) = infos (db r)" for x
    using fresh by (induction "infos (db r)") (auto simp: map_idI)
  have c3: "requests r2 = requests r + length us" using fu by (simp add: r1_def)
  have present: "Info_query_get (db r1) (i_id info0) = Some info0"
    unfolding Info_query_get_def
    using find_appended [of "infos (db r)" "\<lambda>i. i_id i = iid" info0] fresh
    by (simp add: r1_def info0_def)
  have c4: "events r2 =
      events r @ Info_Committed iid # map (\<lambda>u. Summarize_Called iid (u_id u) True) us"
    using fu unfolding present by (simp add: r1_def info0_def)
  have c5: "users (db r2) = users (db r)" using fu by (simp add: r1_def)
  have c6: "infos (db r2) = infos (db r) @
          [info0\<lparr> i_summary := (if us = [] then None else Some (fst (last ys))),
                   i_suggestion := (if us = [] then None else Some (snd (last ys))) \<rparr>]"
  proof (cases "us = []")
    case True
    then show ?thesis using fu by (simp add: r1_def info0_def)
  next
    case False
    have "i_id info0 = iid" by (simp add: info0_def)
    then show ?thesis using fu False by (simp add: r1_def keep)
  qed
  have c7: "flush (date_today E) (pending r2) (pushes (db r2)) =
      flush (date_today E) (map2 (\<lambda>u y. (u_id u, iid, snd y)) us ys) (pushes (db r))"
    using fu p by (simp add: r1_def info0_def)
  show ?thesis
    unfolding pe iid_def [symmetric]
    using c3 c4 c5 c6 c7 by (simp add: session_commit_def info0_def)
qed

text \<open>
  C2. One entry processed for a non-empty list of users, the session holding no
  uncommitted Push (as at the start of every entry of a run) and no call of the
  Summarization Client faulting (\<open>ys\<close> are the values the calls return, the \<open>k\<close>-th for
  the \<open>k\<close>-th user):
  the entry's Info row ends with the summary and the suggestion generated for the last user,
  and the Push rows created are one per user, in order, each with the suggestion generated
  for its own user.
\<close>

theorem process_entry_last_user_wins:
  assumes "us \<noteq> []" and "pending r = []"
    and "e_title e = Some title" and "e_link e = Some link"
    and "generated E (requests r) title (case e_summary e of None \<Rightarrow> [] | Some c \<Rightarrow> c) us =
           map Inr ys"
  shows "\<exists>x rows.
      snd (process_entry E fd us e r) = None
    \<and> infos (db (fst (process_entry E fd us e r))) = infos (db r) @ [x]
    \<and> Info_query_get (db (fst (process_entry E fd us e r))) (i_id x) = Some x
    \<and> generate_summary_and_suggestion (requests_post E (requests r + (length us - 1)))
          (u_profession (last us)) title (case e_summary e of None \<Rightarrow> [] | Some c \<Rightarrow> c) =
        Inr (last ys)
    \<and> i_summary x = Some (fst (last ys))
    \<and> i_suggestion x = Some (snd (last ys))
    \<and> pushes (db (fst (process_entry E fd us e r))) = pushes (db r) @ rows
    \<and> length rows = length us
    \<and> (\<forall>k<length us.
          generate_summary_and_suggestion (requests_post E (requests r + k))
            (u_profession (us ! k)) title (case e_summary e of None \<Rightarrow> [] | Some c \<Rightarrow> c) =
          Inr (ys ! k)
        \<and> p_user_id (rows ! k) = u_id (us ! k)
        \<and> p_info_id (rows ! k) = i_id x
        \<and> p_suggestion (rows ! k) = snd (ys ! k))"
proof -
  let ?c = "case e_summary e of None \<Rightarrow> [] | Some c \<Rightarrow> c"
  let ?r' = "fst (process_entry E fd us e r)"
  define iid where "iid = next_id (map i_id (infos (db r)))"
  define x where "x =
     \<lparr> i_id = iid, i_title = title, i_url = link,
       i_source = (case f_title fd of None \<Rightarrow> py ''RSS'' | Some t \<Rightarrow> t),
       i_content = ?c,
       i_summary = Some (fst (last ys)), i_suggestion = Some (snd (last ys)),
       i_fetched_at = datetime_utcnow E \<rparr>"
  note pe = process_entry_ok [OF assms(3) assms(4) assms(2) assms(5), of fd, folded iid_def]
  have len: "length ys = length us" using assms(5) by (rule generated_length)
  have nth: "generate_summary_and_suggestion (requests_post E (requests r + k))
               (u_profession (us ! k)) title ?c = Inr (ys ! k)" if "k < length us" for k
    using generated_nth [OF assms(5) that] .
  have c1: "snd (process_entry E fd us e r) = None" using pe by blast
  have c2: "infos (db ?r') = infos (db r) @ [x]"
    using pe assms(1) by (simp add: x_def)
  have fresh: "\<forall>i\<in>set (infos (db r)). \<not> i_id i = i_id x"
  proof
    fix i assume "i \<in> set (infos (db r))"
    then have "i_id i \<in> set (map i_id (infos (db r)))" by simp
    from next_id_fresh [OF this] show "\<not> i_id i = i_id x" by (simp add: iid_def x_def)
  qed
  have c3: "Info_query_get (db ?r') (i_id x) = Some x"
    unfolding Info_query_get_def c2 by (rule find_appended [OF fresh]) simp
  have ysne: "ys \<noteq> []" using assms(1) len by auto
  have lastk: "last us = us ! (length us - 1)" "last ys = ys ! (length us - 1)"
    using assms(1) ysne len [symmetric] by (simp_all add: last_conv_nth)
  have c4: "generate_summary_and_suggestion (requests_post E (requests r + (length us - 1)))
          (u_profession (last us)) title ?c = Inr (last ys)"
    unfolding lastk using assms(1) by (intro nth) simp
  have c5: "i_summary x = Some (fst (last ys))" "i_suggestion x = Some (snd (last ys))"
    by (simp_all add: x_def)
  obtain rows where rows:
    "flush (date_today E) (map2 (\<lambda>u y. (u_id u, iid, snd y)) us ys) (pushes (db r)) =
       pushes (db r) @ rows"
    "map (\<lambda>p. (p_user_id p, p_info_id p, p_suggestion p)) rows =
       map2 (\<lambda>u y. (u_id u, iid, snd y)) us ys"
    using flush_rows [of "date_today E" "map2 (\<lambda>u y. (u_id u, iid, snd y)) us ys" "pushes (db r)"]
    by blast
  have c6: "pushes (db ?r') = pushes (db r) @ rows" using pe rows(1) by simp
  have c7: "length rows = length us"
    using arg_cong [OF rows(2), of length] len by simp
  have c8: "p_user_id (rows ! k) = u_id (us ! k) \<and> p_info_id (rows ! k) = i_id x
        \<and> p_suggestion (rows ! k) = snd (ys ! k)" if "k < length us" for k
  proof -
    have "map (\<lambda>p. (p_user_id p, p_info_id p, p_suggestion p)) rows ! k =
        map2 (\<lambda>u y. (u_id u, iid, snd y)) us ys ! k"
      by (simp only: rows(2))
    then show ?thesis using that len c7 by (simp add: x_def)
  qed
  show ?thesis
    by (rule exI [of _ x], rule exI [of _ rows]) (use c1 c2 c3 c4 c5 c6 c7 c8 nth in blast)
qed

lemma sample_parse:
  "parse_completion ((65 + n mod 2) # 10 # delimiter @ [97 + n mod 2]) =
     ([65 + n mod 2], [97 + n mod 2])"
proof -
  have "n mod 2 = 0 \<or> n mod 2 = 1" by arith
  then show ?thesis
    by (auto simp: parse_completion_def delimiter_def py_strip_def py_isspace_def)
qed

lemma sample_generate:
  "generate_summary_and_suggestion (requests_post sample_env n) p t c =
     Inr ([65 + n mod 2], [97 + n mod 2])"
  by (simp add: generate_summary_and_suggestion_def sample_env_def sample_parse)

lemma sample_generated:
  "generated sample_env 0 [84, 49] [] sample_users = map Inr [([65], [97]), ([66], [98])]"
  by (simp add: sample_users_def sample_generate)

theorem process_entry_last_user_wins_witness:
  "sample_users \<noteq> [] \<and> pending sample_run = []
   \<and> generated sample_env 0 [84, 49] [] sample_users = map Inr [([65], [97]), ([66], [98])]
   \<and> (\<exists>x rows.
        snd (process_entry sample_env sample_feed sample_users (sample_entry 49) sample_run) = None
      \<and> infos (db (fst (process_entry sample_env sample_feed sample_users (sample_entry 49)
            sample_run))) = infos sample_store @ [x]
      \<and> i_summary x = Some [66] \<and> i_suggestion x = Some [98]
      \<and> pushes (db (fst (process_entry sample_env sample_feed sample_users (sample_entry 49)
            sample_run))) = pushes sample_store @ rows
      \<and> length rows = 2
      \<and> p_user_id (rows ! 0) = 1 \<and> p_suggestion (rows ! 0) = [97]
      \<and> p_user_id (rows ! 1) = 2 \<and> p_suggestion (rows ! 1) = [98])"
proof -
  have h1: "sample_users \<noteq> []" by (simp add: sample_users_def)
  have h2: "pending sample_run = []" by (simp add: sample_run_def)
  have h3: "e_title (sample_entry 49) = Some [84, 49]" "e_link (sample_entry 49) = Some [76, 49]"
    by (simp_all add: sample_entry_def)
  have h4: "generated sample_env (requests sample_run) [84, 49]
      (case e_summary (sample_entry 49) of None \<Rightarrow> [] | Some c \<Rightarrow> c) sample_users =
      map Inr [([65], [97]), ([66], [98])]"
    using sample_generated by (simp add: sample_run_def sample_entry_def)
  from process_entry_last_user_wins [OF h1 h2 h3 h4, of sample_feed]
  obtain x rows where c:
    "snd (process_entry sample_env sample_feed sample_users (sample_entry 49) sample_run) = None"
    "infos (db (fst (process_entry sample_env sample_feed sample_users (sample_entry 49)
        sample_run))) = infos (db sample_run) @ [x]"
    "i_summary x = Some (fst (last [([65], [97]), ([66::nat], [98::nat])]))"
    "i_suggestion x = Some (snd (last [([65], [97]), ([66::nat], [98::nat])]))"
    "pushes (db (fst (process_entry sample_env sample_feed sample_users (sample_entry 49)
        sample_run))) = pushes (db sample_run) @ rows"
    "length rows = length sample_users"
    "\<forall>k<length sample_users.
       p_user_id (rows ! k) = u_id (sample_users ! k)
       \<and> p_suggestion (rows ! k) = snd ([([65], [97]), ([66::nat], [98::nat])] ! k)"
    by blast
  have k0: "p_user_id (rows ! 0) = 1 \<and> p_suggestion (rows ! 0) = [97]"
    using c(7) [rule_format, of 0] by (simp add: sample_users_def)
  have k1: "p_user_id (rows ! 1) = 2 \<and> p_suggestion (rows ! 1) = [98]"
    using c(7) [rule_format, of 1] by (simp add: sample_users_def)
  have db: "db sample_run = sample_store" by (simp add: sample_run_def)
  have l: "length rows = 2" using c(6) by (simp add: sample_users_def)
  show ?thesis
    using h1 h2 sample_generated c(1) c(2) c(3) c(4) c(5) l k0 k1 unfolding db
    by (intro conjI exI [of _ x] exI [of _ rows]) simp_all
qed

lemma flush_two:
  "\<exists>p q. flush t [(a1, b1, c1), (a2, b2, c2)] ps = ps @ [p, q]
     \<and> p_user_id p = a1 \<and> p_info_id p = b1 \<and> p_suggestion p = c1
     \<and> p_user_id q = a2 \<and> p_info_id q = b2 \<and> p_suggestion q = c2"
  by simp

text \<open>A loop that ends without a fault has had an answer to every call.\<close>

lemma for_users_none:
  "snd (for_users E info us r) = None \<Longrightarrow>
   \<exists>ys. generated E (requests r) (i_title info) (i_content info) us = map Inr ys"
proof (induction us arbitrary: r info)
  case Nil
  show ?case by simp
next
  case (Cons u us)
  let ?g = "generate_summary_and_suggestion (requests_post E (requests r))
              (u_profession u) (i_title info) (i_content info)"
  show ?case
  proof (cases ?g)
    case (Inl f)
    then have "snd (for_users E info (u # us) r) = Some f" by (simp add: Let_def)
    with Cons.prems show ?thesis by simp
  next
    case (Inr y)
    obtain summary suggestion where y: "y = (summary, suggestion)" by (cases y)
    define info' where "info' = info\<lparr>i_summary := Some summary, i_suggestion := Some suggestion\<rparr>"
    define r2 where "r2 =
      r\<lparr> events := events r @ [Summarize_Called (i_id info) (u_id u)
                                    (Info_query_get (db r) (i_id info) \<noteq> None)],
         requests := Suc (requests r),
         db := (db r)\<lparr> infos := map (\<lambda>i. if i_id i = i_id info then info' else i) (infos (db r)),
                        pushes := flush (date_today E) (pending r) (pushes (db r)) \<rparr>,
         pending := [(u_id u, i_id info, suggestion)] \<rparr>"
    have step: "for_users E info (u # us) r = for_users E info' us r2"
      unfolding r2_def info'_def using Inr y
      by (simp add: Let_def session_commit_def update_info_def)
    from Cons.prems have "snd (for_users E info' us r2) = None" by (simp only: step)
    from Cons.IH [OF this] obtain ys where
      "generated E (requests r2) (i_title info') (i_content info') us = map Inr ys" by blast
    then have "generated E (Suc (requests r)) (i_title info) (i_content info) us = map Inr ys"
      by (simp add: r2_def info'_def)
    with Inr have "generated E (requests r) (i_title info) (i_content info) (u # us) =
        map Inr (y # ys)" by simp
    then show ?thesis by blast
  qed
qed

text \<open>
  An entry processed without a fault had a title and a link, and every call for it was
  answered.
\<close>

lemma process_entry_none:
  assumes "snd (process_entry E fd us e r) = None"
  shows "\<exists>title link ys. e_title e = Some title \<and> e_link e = Some link
    \<and> generated E (requests r) title (case e_summary e of None \<Rightarrow> [] | Some c \<Rightarrow> c) us =
        map Inr ys"
proof (cases "e_title e")
  case None
  then have "snd (process_entry E fd us e r) = Some (AttributeError ''title'')"
    by (simp add: process_entry_def)
  with assms show ?thesis by simp
next
  case (Some title)
  note t = Some
  show ?thesis
  proof (cases "e_link e")
    case None
    then have "snd (process_entry E fd us e r) = Some (AttributeError ''link'')"
      using t by (simp add: process_entry_def)
    with assms show ?thesis by simp
  next
    case (Some link)
    define info0 where "info0 =
       \<lparr> i_id = next_id (map i_id (infos (db r))), i_title = title, i_url = link,
         i_source = (case f_title fd of None \<Rightarrow> py ''RSS'' | Some t \<Rightarrow> t),
         i_content = (case e_summary e of None \<Rightarrow> [] | Some c \<Rightarrow> c),
         i_summary = None, i_suggestion = None, i_fetched_at = datetime_utcnow E \<rparr>"
    define r0 where "r0 = session_commit E (r\<lparr>db := insert_info info0 (db r)\<rparr>)"
    define r1 where "r1 = r0\<lparr>events := events r0 @ [Info_Committed (i_id info0)]\<rparr>"
    obtain r2 f where res: "for_users E info0 us r1 = (r2, f)"
      by (cases "for_users E info0 us r1")
    have pe: "process_entry E fd us e r =
        (case f of Some x \<Rightarrow> (r2, Some x) | None \<Rightarrow> (session_commit E r2, None))"
      using t Some res unfolding process_entry_def r1_def r0_def info0_def
      by (simp add: Let_def split: option.splits)
    have "f = None" using assms pe by (cases f) simp_all
    then have "snd (for_users E info0 us r1) = None" using res by simp
    from for_users_none [OF this] obtain ys where
      "generated E (requests r1) (i_title info0) (i_content info0) us = map Inr ys" by blast
    then have "generated E (requests r) title
        (case e_summary e of None \<Rightarrow> [] | Some c \<Rightarrow> c) us = map Inr ys"
      by (simp add: r1_def r0_def info0_def session_commit_def)
    with t Some show ?thesis by blast
  qed
qed

text \<open>One entry for two users, when both calls are answered.\<close>

lemma process_entry_two_users_generated:
  assumes tl: "e_title e = Some title" "e_link e = Some link"
    and p: "pending r = []"
    and g: "generated E (requests r) title
              (case e_summary e of None \<Rightarrow> [] | Some c \<Rightarrow> c) [u1, u2] = map Inr ys"
  shows "\<exists>x p q.
      snd (process_entry E fd [u1, u2] e r) = None
    \<and> pending (fst (process_entry E fd [u1, u2] e r)) = []
    \<and> requests (fst (process_entry E fd [u1, u2] e r)) = requests r + 2
    \<and> events (fst (process_entry E fd [u1, u2] e r)) =
        events r @ [Info_Committed (i_id x), Summarize_Called (i_id x) (u_id u1) True,
                    Summarize_Called (i_id x) (u_id u2) True]
    \<and> users (db (fst (process_entry E fd [u1, u2] e r))) = users (db r)
    \<and> infos (db (fst (process_entry E fd [u1, u2] e r))) = infos (db r) @ [x]
    \<and> i_id x = next_id (map i_id (infos (db r)))
    \<and> e_title e = Some (i_title x) \<and> e_link e = Some (i_url x)
    \<and> pushes (db (fst (process_entry E fd [u1, u2] e r))) = pushes (db r) @ [p, q]
    \<and> p_info_id p = i_id x \<and> p_user_id p = u_id u1
    \<and> p_info_id q = i_id x \<and> p_user_id q = u_id u2"
proof -
  let ?c = "case e_summary e of None \<Rightarrow> [] | Some c \<Rightarrow> c"
  from generated_length [OF g] obtain y1 y2 where ys: "ys = [y1, y2]"
    by (cases ys; cases "tl ys") auto
  note pe = process_entry_ok [OF tl p g, of fd]
  let ?iid = "next_id (map i_id (infos (db r)))"
  from flush_two [of "date_today E" "u_id u1" ?iid "snd y1" "u_id u2" ?iid "snd y2" "pushes (db r)"]
  obtain p q where pq: "flush (date_today E) [(u_id u1, ?iid, snd y1), (u_id u2, ?iid, snd y2)]
        (pushes (db r)) = pushes (db r) @ [p, q]"
    "p_user_id p = u_id u1" "p_info_id p = ?iid" "p_user_id q = u_id u2" "p_info_id q = ?iid"
    by blast
  let ?x = "\<lparr> i_id = ?iid, i_title = title, i_url = link,
              i_source = (case f_title fd of None \<Rightarrow> py ''RSS'' | Some t \<Rightarrow> t),
              i_content = ?c,
              i_summary = Some (fst y2), i_suggestion = Some (snd y2),
              i_fetched_at = datetime_utcnow E \<rparr>"
  show ?thesis
    by (rule exI [of _ ?x], rule exI [of _ p], rule exI [of _ q]) (use pe pq tl ys in simp)
qed

lemma process_entry_two_users:
  assumes t: "e_title e \<noteq> None" and l: "e_link e \<noteq> None"
    and p: "pending r = []"
    and total: "\<forall>k<2. \<forall>pl. \<exists>reply. requests_post E (requests r + k) pl = Inr reply"
  shows "\<exists>x p q.
      snd (process_entry E fd [u1, u2] e r) = None
    \<and> pending (fst (process_entry E fd [u1, u2] e r)) = []
    \<and> requests (fst (process_entry E fd [u1, u2] e r)) = requests r + 2
    \<and> events (fst (process_entry E fd [u1, u2] e r)) =
        events r @ [Info_Committed (i_id x), Summarize_Called (i_id x) (u_id u1) True,
                    Summarize_Called (i_id x) (u_id u2) True]
    \<and> users (db (fst (process_entry E fd [u1, u2] e r))) = users (db r)
    \<and> infos (db (fst (process_entry E fd [u1, u2] e r))) = infos (db r) @ [x]
    \<and> i_id x = next_id (map i_id (infos (db r)))
    \<and> e_title e = Some (i_title x) \<and> e_link e = Some (i_url x)
    \<and> pushes (db (fst (process_entry E fd [u1, u2] e r))) = pushes (db r) @ [p, q]
    \<and> p_info_id p = i_id x \<and> p_user_id p = u_id u1
    \<and> p_info_id q = i_id x \<and> p_user_id q = u_id u2"
proof -
  from t l obtain title link where tl: "e_title e = Some title" "e_link e = Some link" by auto
  have "\<forall>k<length [u1, u2]. \<forall>pl. \<exists>reply. requests_post E (requests r + k) pl = Inr reply"
    using total by simp
  from generated_total [OF this, of title "case e_summary e of None \<Rightarrow> [] | Some c \<Rightarrow> c"]
  obtain ys where g: "generated E (requests r) title
      (case e_summary e of None \<Rightarrow> [] | Some c \<Rightarrow> c) [u1, u2] = map Inr ys" by blast
  show ?thesis by (rule process_entry_two_users_generated [OF tl p g])
qed

lemma process_entry_two_users_completed:
  assumes fin: "snd (process_entry E fd [u1, u2] e r) = None"
    and p: "pending r = []"
  shows "\<exists>x p q.
      snd (process_entry E fd [u1, u2] e r) = None
    \<and> pending (fst (process_entry E fd [u1, u2] e r)) = []
    \<and> requests (fst (process_entry E fd [u1, u2] e r)) = requests r + 2
    \<and> events (fst (process_entry E fd [u1, u2] e r)) =
        events r @ [Info_Committed (i_id x), Summarize_Called (i_id x) (u_id u1) True,
                    Summarize_Called (i_id x) (u_id u2) True]
    \<and> users (db (fst (process_entry E fd [u1, u2] e r))) = users (db r)
    \<and> infos (db (fst (process_entry E fd [u1, u2] e r))) = infos (db r) @ [x]
    \<and> i_id x = next_id (map i_id (infos (db r)))
    \<and> e_title e = Some (i_title x) \<and> e_link e = Some (i_url x)
    \<and> pushes (db (fst (process_entry E fd [u1, u2] e r))) = pushes (db r) @ [p, q]
    \<and> p_info_id p = i_id x \<and> p_user_id p = u_id u1
    \<and> p_info_id q = i_id x \<and> p_user_id q = u_id u2"
proof -
  from process_entry_none [OF fin] obtain title link ys where
    tl: "e_title e = Some title" "e_link e = Some link"
    and g: "generated E (requests r) title
      (case e_summary e of None \<Rightarrow> [] | Some c \<Rightarrow> c) [u1, u2] = map Inr ys" by blast
  show ?thesis by (rule process_entry_two_users_generated [OF tl p g])
qed

lemma for_feeds_single:
  "feedparser_parse E rss = Inr fd \<Longrightarrow>
   for_feeds E us [rss] r = for_entries E fd us (take 3 (f_entries fd)) r"
  by (simp split: prod.splits option.splits)

lemma for_entries_Cons_none:
  assumes "snd (for_entries E fd us (e # es) r) = None"
  shows "snd (process_entry E fd us e r) = None
    \<and> for_entries E fd us (e # es) r = for_entries E fd us es (fst (process_entry E fd us e r))"
proof -
  obtain r' f where res: "process_entry E fd us e r = (r', f)"
    by (cases "process_entry E fd us e r")
  show ?thesis using assms res by (cases f) simp_all
qed

text \<open>
  A run over one feed of at least three entries, for two users, that no fault ends.
\<close>

lemma three_entries_two_users_completed:
  assumes urls: "RSS_URLS E = [rss]"
    and parse: "feedparser_parse E rss = Inr fd"
    and entries: "f_entries fd = e1 # e2 # e3 # others"
    and us: "users s = [u1, u2]"
    and fin: "snd (fetch_and_summarize E s) = None"
  shows "\<exists>x1 x2 x3 p1 p2 p3 p4 p5 p6.
      users (db (fst (fetch_and_summarize E s))) = users s
    \<and> infos (db (fst (fetch_and_summarize E s))) = infos s @ [x1, x2, x3]
    \<and> map i_id [x1, x2, x3] =
        [next_id (map i_id (infos s)), next_id (map i_id (infos s)) + 1,
         next_id (map i_id (infos s)) + 2]
    \<and> map e_title [e1, e2, e3] = map (\<lambda>x. Some (i_title x)) [x1, x2, x3]
    \<and> map e_link [e1, e2, e3] = map (\<lambda>x. Some (i_url x)) [x1, x2, x3]
    \<and> pushes (db (fst (fetch_and_summarize E s))) = pushes s @ [p1, p2, p3, p4, p5, p6]
    \<and> map (\<lambda>p. (p_info_id p, p_user_id p)) [p1, p2, p3, p4, p5, p6] =
        [(i_id x1, u_id u1), (i_id x1, u_id u2),
         (i_id x2, u_id u1), (i_id x2, u_id u2),
         (i_id x3, u_id u1), (i_id x3, u_id u2)]
    \<and> events (fst (fetch_and_summarize E s)) =
        [Info_Committed (i_id x1),
         Summarize_Called (i_id x1) (u_id u1) True, Summarize_Called (i_id x1) (u_id u2) True,
         Info_Committed (i_id x2),
         Summarize_Called (i_id x2) (u_id u1) True, Summarize_Called (i_id x2) (u_id u2) True,
         Info_Committed (i_id x3),
         Summarize_Called (i_id x3) (u_id u1) True, Summarize_Called (i_id x3) (u_id u2) True]"
proof -
  define r0 where "r0 = \<lparr> db = s, pending = [], events = [], requests = 0 \<rparr>"
  define r1 where "r1 = fst (process_entry E fd [u1, u2] e1 r0)"
  define r2 where "r2 = fst (process_entry E fd [u1, u2] e2 r1)"
  define r3 where "r3 = fst (process_entry E fd [u1, u2] e3 r2)"
  have fe: "fetch_and_summarize E s = for_entries E fd [u1, u2] [e1, e2, e3] r0"
    unfolding fetch_and_summarize_def us urls r0_def [symmetric]
    using for_feeds_single [OF parse, of "[u1, u2]" r0] by (simp add: entries)
  have d0: "snd (for_entries E fd [u1, u2] [e1, e2, e3] r0) = None" using fin fe by simp
  note k1 = for_entries_Cons_none [OF d0, folded r1_def]
  have d1: "snd (for_entries E fd [u1, u2] [e2, e3] r1) = None" using d0 k1 by simp
  note k2 = for_entries_Cons_none [OF d1, folded r2_def]
  have d2: "snd (for_entries E fd [u1, u2] [e3] r2) = None" using d1 k2 by simp
  note k3 = for_entries_Cons_none [OF d2, folded r3_def]
  have s1: "snd (process_entry E fd [u1, u2] e1 r0) = None" using k1 by blast
  have s2: "snd (process_entry E fd [u1, u2] e2 r1) = None" using k2 by blast
  have s3: "snd (process_entry E fd [u1, u2] e3 r2) = None" using k3 by blast
  have run: "fetch_and_summarize E s = (r3, None)"
    using fe k1 k2 k3 by simp
  have fr: "fst (fetch_and_summarize E s) = r3" using run by simp
  have p0: "pending r0 = []" by (simp add: r0_def)
  from process_entry_two_users_completed [OF s1 p0, folded r1_def]
  obtain x1 p1 p2 where a:
    "snd (process_entry E fd [u1, u2] e1 r0) = None" "pending r1 = []"
    "requests r1 = requests r0 + 2"
    "events r1 = events r0 @ [Info_Committed (i_id x1),
        Summarize_Called (i_id x1) (u_id u1) True, Summarize_Called (i_id x1) (u_id u2) True]"
    "users (db r1) = users (db r0)" "infos (db r1) = infos (db r0) @ [x1]"
    "i_id x1 = next_id (map i_id (infos (db r0)))"
    "e_title e1 = Some (i_title x1)" "e_link e1 = Some (i_url x1)"
    "pushes (db r1) = pushes (db r0) @ [p1, p2]"
    "p_info_id p1 = i_id x1" "p_user_id p1 = u_id u1"
    "p_info_id p2 = i_id x1" "p_user_id p2 = u_id u2"
    by blast
  from process_entry_two_users_completed [OF s2 a(2), folded r2_def]
  obtain x2 p3 p4 where b:
    "snd (process_entry E fd [u1, u2] e2 r1) = None" "pending r2 = []"
    "requests r2 = requests r1 + 2"
    "events r2 = events r1 @ [Info_Committed (i_id x2),
        Summarize_Called (i_id x2) (u_id u1) True, Summarize_Called (i_id x2) (u_id u2) True]"
    "users (db r2) = users (db r1)" "infos (db r2) = infos (db r1) @ [x2]"
    "i_id x2 = next_id (map i_id (infos (db r1)))"
    "e_title e2 = Some (i_title x2)" "e_link e2 = Some (i_url x2)"
    "pushes (db r2) = pushes (db r1) @ [p3, p4]"
    "p_info_id p3 = i_id x2" "p_user_id p3 = u_id u1"
    "p_info_id p4 = i_id x2" "p_user_id p4 = u_id u2"
    by blast
  from process_entry_two_users_completed [OF s3 b(2), folded r3_def]
  obtain x3 p5 p6 where c:
    "snd (process_entry E fd [u1, u2] e3 r2) = None" "pending r3 = []"
    "requests r3 = requests r2 + 2"
    "events r3 = events r2 @ [Info_Committed (i_id x3),
        Summarize_Called (i_id x3) (u_id u1) True, Summarize_Called (i_id x3) (u_id u2) True]"
    "users (db r3) = users (db r2)" "infos (db r3) = infos (db r2) @ [x3]"
    "i_id x3 = next_id (map i_id (infos (db r2)))"
    "e_title e3 = Some (i_title x3)" "e_link e3 = Some (i_url x3)"
    "pushes (db r3) = pushes (db r2) @ [p5, p6]"
    "p_info_id p5 = i_id x3" "p_user_id p5 = u_id u1"
    "p_info_id p6 = i_id x3" "p_user_id p6 = u_id u2"
    by blast
  have id1: "i_id x1 = next_id (map i_id (infos s))" using a(7) by (simp add: r0_def)
  have id2: "i_id x2 = next_id (map i_id (infos s)) + 1"
    using b(7) a(6) id1 next_id_append [of "map i_id (infos s)"] by (simp add: r0_def)
  have id3: "i_id x3 = next_id (map i_id (infos s)) + 2"
  proof -
    have "map i_id (infos (db r2)) = map i_id (infos (db r1)) @ [next_id (map i_id (infos (db r1)))]"
      using b(6) b(7) by simp
    then have "i_id x3 = next_id (map i_id (infos (db r1))) + 1"
      using c(7) next_id_append [of "map i_id (infos (db r1))"] by simp
    then show ?thesis using b(7) id2 by simp
  qed
  have c2: "users (db r3) = users s" using a(5) b(5) c(5) by (simp add: r0_def)
  have c3: "infos (db r3) = infos s @ [x1, x2, x3]" using a(6) b(6) c(6) by (simp add: r0_def)
  have c7: "pushes (db r3) = pushes s @ [p1, p2, p3, p4, p5, p6]"
    using a(10) b(10) c(10) by (simp add: r0_def)
  have c9: "events r3 =
        [Info_Committed (i_id x1),
         Summarize_Called (i_id x1) (u_id u1) True, Summarize_Called (i_id x1) (u_id u2) True,
         Info_Committed (i_id x2),
         Summarize_Called (i_id x2) (u_id u1) True, Summarize_Called (i_id x2) (u_id u2) True,
         Info_Committed (i_id x3),
         Summarize_Called (i_id x3) (u_id u1) True, Summarize_Called (i_id x3) (u_id u2) True]"
    using a(4) b(4) c(4) by (simp add: r0_def)
  have c4: "map i_id [x1, x2, x3] =
        [next_id (map i_id (infos s)), next_id (map i_id (infos s)) + 1,
         next_id (map i_id (infos s)) + 2]"
    using id1 id2 id3 by simp
  have c5: "map e_title [e1, e2, e3] = map (\<lambda>x. Some (i_title x)) [x1, x2, x3]"
    using a(8) b(8) c(8) by simp
  have c6: "map e_link [e1, e2, e3] = map (\<lambda>x. Some (i_url x)) [x1, x2, x3]"
    using a(9) b(9) c(9) by simp
  have c8: "map (\<lambda>p. (p_info_id p, p_user_id p)) [p1, p2, p3, p4, p5, p6] =
        [(i_id x1, u_id u1), (i_id x1, u_id u2),
         (i_id x2, u_id u1), (i_id x2, u_id u2),
         (i_id x3, u_id u1), (i_id x3, u_id u2)]"
    using a(11-14) b(11-14) c(11-14) by simp
  show ?thesis
    unfolding fr
    apply (rule exI [of _ x1], rule exI [of _ x2], rule exI [of _ x3])
    apply (rule exI [of _ p1], rule exI [of _ p2], rule exI [of _ p3])
    apply (rule exI [of _ p4], rule exI [of _ p5], rule exI [of _ p6])
    apply (intro conjI c2 c3 c4 c5 c6 c7 c8 c9)
    done
qed

text \<open>Such a run completes when the entries have their fields and the six calls are answered.\<close>

lemma three_entries_two_users_completes:
  assumes urls: "RSS_URLS E = [rss]"
    and parse: "feedparser_parse E rss = Inr fd"
    and entries: "f_entries fd = e1 # e2 # e3 # others"
    and us: "users s = [u1, u2]"
    and fields: "\<forall>e\<in>set [e1, e2, e3]. e_title e \<noteq> None \<and> e_link e \<noteq> None"
    and total: "\<forall>n<6. \<forall>pl. \<exists>reply. requests_post E n pl = Inr reply"
  shows "snd (fetch_and_summarize E s) = None"
proof -
  define r0 where "r0 = \<lparr> db = s, pending = [], events = [], requests = 0 \<rparr>"
  define r1 where "r1 = fst (process_entry E fd [u1, u2] e1 r0)"
  define r2 where "r2 = fst (process_entry E fd [u1, u2] e2 r1)"
  define r3 where "r3 = fst (process_entry E fd [u1, u2] e3 r2)"
  have f1: "e_title e1 \<noteq> None" "e_link e1 \<noteq> None"
    and f2: "e_title e2 \<noteq> None" "e_link e2 \<noteq> None"
    and f3: "e_title e3 \<noteq> None" "e_link e3 \<noteq> None"
    using fields by simp_all
  have p0: "pending r0 = []" by (simp add: r0_def)
  have t1: "\<forall>k<2. \<forall>pl. \<exists>reply. requests_post E (requests r0 + k) pl = Inr reply"
    using total by (simp add: r0_def)
  from process_entry_two_users [OF f1 p0 t1, of fd u1 u2, folded r1_def]
  have a: "snd (process_entry E fd [u1, u2] e1 r0) = None" "pending r1 = []"
    "requests r1 = requests r0 + 2" by blast+
  have t2: "\<forall>k<2. \<forall>pl. \<exists>reply. requests_post E (requests r1 + k) pl = Inr reply"
    using total by (simp add: a(3) r0_def)
  from process_entry_two_users [OF f2 a(2) t2, of fd u1 u2, folded r2_def]
  have b: "snd (process_entry E fd [u1, u2] e2 r1) = None" "pending r2 = []"
    "requests r2 = requests r1 + 2" by blast+
  have t3: "\<forall>k<2. \<forall>pl. \<exists>reply. requests_post E (requests r2 + k) pl = Inr reply"
    using total by (simp add: a(3) b(3) r0_def)
  from process_entry_two_users [OF f3 b(2) t3, of fd u1 u2, folded r3_def]
  have c: "snd (process_entry E fd [u1, u2] e3 r2) = None" by blast
  have s1: "process_entry E fd [u1, u2] e1 r0 = (r1, None)"
    using a(1) by (simp add: r1_def prod_eq_iff)
  have s2: "process_entry E fd [u1, u2] e2 r1 = (r2, None)"
    using b(1) by (simp add: r2_def prod_eq_iff)
  have s3: "process_entry E fd [u1, u2] e3 r2 = (r3, None)"
    using c by (simp add: r3_def prod_eq_iff)
  have "fetch_and_summarize E s = (r3, None)"
    unfolding fetch_and_summarize_def us urls r0_def [symmetric]
    by (simp add: parse entries s1 s2 s3)
  then show ?thesis by simp
qed

lemma three_entries_two_users_run:
  assumes urls: "RSS_URLS E = [rss]"
    and parse: "feedparser_parse E rss = Inr fd"
    and entries: "f_entries fd = e1 # e2 # e3 # others"
    and us: "users s = [u1, u2]"
    and fields: "\<forall>e\<in>set [e1, e2, e3]. e_title e \<noteq> None \<and> e_link e \<noteq> None"
    and total: "\<forall>n<6. \<forall>pl. \<exists>reply. requests_post E n pl = Inr reply"
  shows "\<exists>r x1 x2 x3 p1 p2 p3 p4 p5 p6.
      fetch_and_summarize E s = (r, None)
    \<and> users (db r) = users s
    \<and> infos (db r) = infos s @ [x1, x2, x3]
    \<and> map i_id [x1, x2, x3] =
        [next_id (map i_id (infos s)), next_id (map i_id (infos s)) + 1,
         next_id (map i_id (infos s)) + 2]
    \<and> map e_title [e1, e2, e3] = map (\<lambda>x. Some (i_title x)) [x1, x2, x3]
    \<and> map e_link [e1, e2, e3] = map (\<lambda>x. Some (i_url x)) [x1, x2, x3]
    \<and> pushes (db r) = pushes s @ [p1, p2, p3, p4, p5, p6]
    \<and> map (\<lambda>p. (p_info_id p, p_user_id p)) [p1, p2, p3, p4, p5, p6] =
        [(i_id x1, u_id u1), (i_id x1, u_id u2),
         (i_id x2, u_id u1), (i_id x2, u_id u2),
         (i_id x3, u_id u1), (i_id x3, u_id u2)]
    \<and> events r =
        [Info_Committed (i_id x1),
         Summarize_Called (i_id x1) (u_id u1) True, Summarize_Called (i_id x1) (u_id u2) True,
         Info_Committed (i_id x2),
         Summarize_Called (i_id x2) (u_id u1) True, Summarize_Called (i_id x2) (u_id u2) True,
         Info_Committed (i_id x3),
         Summarize_Called (i_id x3) (u_id u1) True, Summarize_Called (i_id x3) (u_id u2) True]"
proof -
  have fin: "snd (fetch_and_summarize E s) = None"
    by (rule three_entries_two_users_completes [OF urls parse entries us fields total])
  then have pair: "fetch_and_summarize E s = (fst (fetch_and_summarize E s), None)"
    by (simp add: prod_eq_iff)
  from three_entries_two_users_completed [OF urls parse entries us fin]
  obtain x1 x2 x3 p1 p2 p3 p4 p5 p6 where c:
    "users (db (fst (fetch_and_summarize E s))) = users s
     \<and> infos (db (fst (fetch_and_summarize E s))) = infos s @ [x1, x2, x3]
     \<and> map i_id [x1, x2, x3] =
         [next_id (map i_id (infos s)), next_id (map i_id (infos s)) + 1,
          next_id (map i_id (infos s)) + 2]
     \<and> map e_title [e1, e2, e3] = map (\<lambda>x. Some (i_title x)) [x1, x2, x3]
     \<and> map e_link [e1, e2, e3] = map (\<lambda>x. Some (i_url x)) [x1, x2, x3]
     \<and> pushes (db (fst (fetch_and_summarize E s))) = pushes s @ [p1, p2, p3, p4, p5, p6]
     \<and> map (\<lambda>p. (p_info_id p, p_user_id p)) [p1, p2, p3, p4, p5, p6] =
         [(i_id x1, u_id u1), (i_id x1, u_id u2),
          (i_id x2, u_id u1), (i_id x2, u_id u2),
          (i_id x3, u_id u1), (i_id x3, u_id u2)]
     \<and> events (fst (fetch_and_summarize E s)) =
         [Info_Committed (i_id x1),
          Summarize_Called (i_id x1) (u_id u1) True, Summarize_Called (i_id x1) (u_id u2) True,
          Info_Committed (i_id x2),
          Summarize_Called (i_id x2) (u_id u1) True, Summarize_Called (i_id x2) (u_id u2) True,
          Info_Committed (i_id x3),
          Summarize_Called (i_id x3) (u_id u1) True, Summarize_Called (i_id x3) (u_id u2) True]"
    by (elim exE)
  show ?thesis
    apply (rule exI [of _ "fst (fetch_and_summarize E s)"])
    apply (rule exI [of _ x1], rule exI [of _ x2], rule exI [of _ x3])
    apply (rule exI [of _ p1], rule exI [of _ p2], rule exI [of _ p3])
    apply (rule exI [of _ p4], rule exI [of _ p5], rule exI [of _ p6])
    apply (rule conjI [OF pair c])
    done
qed


text \<open>
  C1, as amended. One configured feed whose parse yields at least three entries and a
  store with exactly two users. A run that no fault ends adds exactly three Info rows, one
  for each of the first three entries in order, and exactly six Push rows, one for each
  pair of a new Info and a user; the users are unchanged; each Info is committed before the
  two calls of the Summarization Client for it, and its row is in the store when they are
  made. The run is not ended by a fault when each of the first three entries has a title
  and a link, the completion endpoint answers the six requests of the run, and the texts
  are ones the database stores.
\<close>

theorem ingestion_three_entries_two_users:
  assumes urls: "RSS_URLS E = [rss]"
    and parse: "feedparser_parse E rss = Inr fd"
    and entries: "f_entries fd = e1 # e2 # e3 # others"
    and us: "users s = [u1, u2]"
  shows "((\<forall>e\<in>set [e1, e2, e3].
             (\<exists>t. e_title e = Some t \<and> sqlite_text t)
             \<and> (\<exists>l. e_link e = Some l \<and> sqlite_text l)
             \<and> sqlite_text (case e_summary e of None \<Rightarrow> [] | Some c \<Rightarrow> c))
          \<and> sqlite_text (case f_title fd of None \<Rightarrow> py ''RSS'' | Some t \<Rightarrow> t)
          \<and> (\<forall>n<6. \<forall>pl. \<exists>reply. requests_post E n pl = Inr reply \<and> sqlite_text reply)
         \<longrightarrow> snd (fetch_and_summarize E s) = None)
    \<and> (snd (fetch_and_summarize E s) = None \<longrightarrow>
         (\<exists>x1 x2 x3 p1 p2 p3 p4 p5 p6.
      users (db (fst (fetch_and_summarize E s))) = users s
    \<and> infos (db (fst (fetch_and_summarize E s))) = infos s @ [x1, x2, x3]
    \<and> map i_id [x1, x2, x3] =
        [next_id (map i_id (infos s)), next_id (map i_id (infos s)) + 1,
         next_id (map i_id (infos s)) + 2]
    \<and> map e_title [e1, e2, e3] = map (\<lambda>x. Some (i_title x)) [x1, x2, x3]
    \<and> map e_link [e1, e2, e3] = map (\<lambda>x. Some (i_url x)) [x1, x2, x3]
    \<and> pushes (db (fst (fetch_and_summarize E s))) = pushes s @ [p1, p2, p3, p4, p5, p6]
    \<and> map (\<lambda>p. (p_info_id p, p_user_id p)) [p1, p2, p3, p4, p5, p6] =
        [(i_id x1, u_id u1), (i_id x1, u_id u2),
         (i_id x2, u_id u1), (i_id x2, u_id u2),
         (i_id x3, u_id u1), (i_id x3, u_id u2)]
    \<and> events (fst (fetch_and_summarize E s)) =
        [Info_Committed (i_id x1),
         Summarize_Called (i_id x1) (u_id u1) True, Summarize_Called (i_id x1) (u_id u2) True,
         Info_Committed (i_id x2),
         Summarize_Called (i_id x2) (u_id u1) True, Summarize_Called (i_id x2) (u_id u2) True,
         Info_Committed (i_id x3),
         Summarize_Called (i_id x3) (u_id u1) True, Summarize_Called (i_id x3) (u_id u2) True]))"
proof (intro conjI impI)
  assume h: "(\<forall>e\<in>set [e1, e2, e3].
             (\<exists>t. e_title e = Some t \<and> sqlite_text t)
             \<and> (\<exists>l. e_link e = Some l \<and> sqlite_text l)
             \<and> sqlite_text (case e_summary e of None \<Rightarrow> [] | Some c \<Rightarrow> c))
          \<and> sqlite_text (case f_title fd of None \<Rightarrow> py ''RSS'' | Some t \<Rightarrow> t)
          \<and> (\<forall>n<6. \<forall>pl. \<exists>reply. requests_post E n pl = Inr reply \<and> sqlite_text reply)"
  then have fields: "\<forall>e\<in>set [e1, e2, e3]. e_title e \<noteq> None \<and> e_link e \<noteq> None"
    by auto
  from h have total: "\<forall>n<6. \<forall>pl. \<exists>reply. requests_post E n pl = Inr reply"
    by blast
  show "snd (fetch_and_summarize E s) = None"
    by (rule three_entries_two_users_completes [OF urls parse entries us fields total])
next
  assume "snd (fetch_and_summarize E s) = None"
  then show "\<exists>x1 x2 x3 p1 p2 p3 p4 p5 p6.
      users (db (fst (fetch_and_summarize E s))) = users s
    \<and> infos (db (fst (fetch_and_summarize E s))) = infos s @ [x1, x2, x3]
    \<and> map i_id [x1, x2, x3] =
        [next_id (map i_id (infos s)), next_id (map i_id (infos s)) + 1,
         next_id (map i_id (infos s)) + 2]
    \<and> map e_title [e1, e2, e3] = map (\<lambda>x. Some (i_title x)) [x1, x2, x3]
    \<and> map e_link [e1, e2, e3] = map (\<lambda>x. Some (i_url x)) [x1, x2, x3]
    \<and> pushes (db (fst (fetch_and_summarize E s))) = pushes s @ [p1, p2, p3, p4, p5, p6]
    \<and> map (\<lambda>p. (p_info_id p, p_user_id p)) [p1, p2, p3, p4, p5, p6] =
        [(i_id x1, u_id u1), (i_id x1, u_id u2),
         (i_id x2, u_id u1), (i_id x2, u_id u2),
         (i_id x3, u_id u1), (i_id x3, u_id u2)]
    \<and> events (fst (fetch_and_summarize E s)) =
        [Info_Committed (i_id x1),
         Summarize_Called (i_id x1) (u_id u1) True, Summarize_Called (i_id x1) (u_id u2) True,
         Info_Committed (i_id x2),
         Summarize_Called (i_id x2) (u_id u1) True, Summarize_Called (i_id x2) (u_id u2) True,
         Info_Committed (i_id x3),
         Summarize_Called (i_id x3) (u_id u1) True, Summarize_Called (i_id x3) (u_id u2) True]"
    by (rule three_entries_two_users_completed [OF urls parse entries us])
qed

lemma sample_hyps:
  "RSS_URLS sample_env = [py ''feed'']"
  "feedparser_parse sample_env (py ''feed'') = Inr sample_feed"
  "f_entries sample_feed = sample_entry 49 # sample_entry 50 # sample_entry 51 # [sample_entry 52]"
  "users sample_store =
      [\<lparr> u_id = 1, u_profession = py ''nurse'', u_field = None, u_contact = None,
          u_created_at = 0 \<rparr>,
       \<lparr> u_id = 2, u_profession = py ''welder'', u_field = None, u_contact = None,
          u_created_at = 0 \<rparr>]"
  by (simp_all add: sample_env_def sample_feed_def sample_store_def sample_users_def)

theorem ingestion_three_entries_two_users_witness:
  "RSS_URLS sample_env = [py ''feed'']
   \<and> feedparser_parse sample_env (py ''feed'') = Inr sample_feed
   \<and> length (f_entries sample_feed) = 4
   \<and> length (users sample_store) = 2
   \<and> snd (fetch_and_summarize sample_env sample_store) = None
   \<and> length (infos (db (fst (fetch_and_summarize sample_env sample_store)))) =
       length (infos sample_store) + 3
   \<and> map i_title (drop 1 (infos (db (fst (fetch_and_summarize sample_env sample_store))))) =
       [[84, 49], [84, 50], [84, 51]]
   \<and> length (pushes (db (fst (fetch_and_summarize sample_env sample_store)))) =
       length (pushes sample_store) + 6"
proof -
  note t = ingestion_three_entries_two_users [OF sample_hyps]
  have h5: "\<forall>e\<in>set [sample_entry 49, sample_entry 50, sample_entry 51].
      (\<exists>t. e_title e = Some t \<and> sqlite_text t)
      \<and> (\<exists>l. e_link e = Some l \<and> sqlite_text l)
      \<and> sqlite_text (case e_summary e of None \<Rightarrow> [] | Some c \<Rightarrow> c)"
    by (simp add: sample_entry_def sqlite_text_def)
  have h6: "sqlite_text (case f_title sample_feed of None \<Rightarrow> py ''RSS'' | Some t \<Rightarrow> t)"
    by (simp add: sample_feed_def sqlite_text_def py_def)
  have sm: "sqlite_text ((65 + n mod 2) # 10 # delimiter @ [97 + n mod 2])" for n :: nat
  proof -
    have "n mod 2 = 0 \<or> n mod 2 = 1" by arith
    then show ?thesis by (auto simp: sqlite_text_def delimiter_def)
  qed
  have h7: "\<forall>n<6. \<forall>pl. \<exists>reply. requests_post sample_env n pl = Inr reply \<and> sqlite_text reply"
    by (simp add: sample_env_def sm)
  from t h5 h6 h7 have fin: "snd (fetch_and_summarize sample_env sample_store) = None"
    by blast
  with t obtain x1 x2 x3 p1 p2 p3 p4 p5 p6 where c:
    "infos (db (fst (fetch_and_summarize sample_env sample_store))) =
       infos sample_store @ [x1, x2, x3]"
    "map e_title [sample_entry 49, sample_entry 50, sample_entry 51] =
       map (\<lambda>x. Some (i_title x)) [x1, x2, x3]"
    "pushes (db (fst (fetch_and_summarize sample_env sample_store))) =
       pushes sample_store @ [p1, p2, p3, p4, p5, p6]"
    by blast
  have ti: "map i_title [x1, x2, x3] = [[84, 49], [84, 50], [84, 51]]"
    using c(2) by (simp add: sample_entry_def)
  have n: "length (infos sample_store) = 1" by (simp add: sample_store_def)
  show ?thesis
    using sample_hyps(1) sample_hyps(2) fin c(1) c(3) ti n
    by (simp add: sample_feed_def sample_store_def sample_users_def)
qed

text \<open>
  The claim C1 as it is stated, for every run, fails. With the completion endpoint down,
  the run over the sample feed of four entries for the two sample users is ended by the
  fault of the first call: one Info row is added and no Push row. With a second entry that
  has no title, the run is ended by \<open>AttributeError\<close> after the first entry: one Info row
  and two Push rows are added.
\<close>

theorem ingestion_fault_counterexample:
  "RSS_URLS faulty_env = [py ''feed'']
   \<and> feedparser_parse faulty_env (py ''feed'') = Inr sample_feed
   \<and> length (f_entries sample_feed) = 4
   \<and> length (users sample_store) = 2
   \<and> snd (fetch_and_summarize faulty_env sample_store) = Some (ExternalFault ''ConnectionError'')
   \<and> length (infos (db (fst (fetch_and_summarize faulty_env sample_store)))) =
       length (infos sample_store) + 1
   \<and> pushes (db (fst (fetch_and_summarize faulty_env sample_store))) = pushes sample_store
   \<and> RSS_URLS untitled_env = [py ''feed'']
   \<and> feedparser_parse untitled_env (py ''feed'') = Inr untitled_feed
   \<and> length (f_entries untitled_feed) = 3
   \<and> snd (fetch_and_summarize untitled_env sample_store) = Some (AttributeError ''title'')
   \<and> length (infos (db (fst (fetch_and_summarize untitled_env sample_store)))) =
       length (infos sample_store) + 1
   \<and> length (pushes (db (fst (fetch_and_summarize untitled_env sample_store)))) =
       length (pushes sample_store) + 2"
proof -
  have a: "fetch_and_summarize faulty_env sample_store =
      (\<lparr> db = sample_store\<lparr>infos := infos sample_store @
               [\<lparr> i_id = 2, i_title = [84, 49], i_url = [76, 49], i_source = py ''RSS'',
                   i_content = [], i_summary = None, i_suggestion = None,
                   i_fetched_at = 0 \<rparr>]\<rparr>,
          pending = [],
          events = [Info_Committed 2, Summarize_Called 2 1 True],
          requests = 1 \<rparr>,
       Some (ExternalFault ''ConnectionError''))"
    by (simp add: fetch_and_summarize_def faulty_env_def sample_env_def sample_feed_def
        sample_entry_def sample_defs process_entry_def Let_def session_commit_def
        insert_info_def generate_summary_and_suggestion_def next_id_def Info_query_get_def)
  define r0 where "r0 = \<lparr> db = sample_store, pending = [], events = [], requests = 0 \<rparr>"
  define r1 where "r1 = fst (process_entry untitled_env untitled_feed sample_users
      (sample_entry 49) r0)"
  have f1: "e_title (sample_entry 49) \<noteq> None" "e_link (sample_entry 49) \<noteq> None"
    by (simp_all add: sample_entry_def)
  have p0: "pending r0 = []" by (simp add: r0_def)
  have t1: "\<forall>k<2. \<forall>pl. \<exists>reply. requests_post untitled_env (requests r0 + k) pl = Inr reply"
    by (simp add: untitled_env_def sample_env_def)
  have su: "sample_users = [sample_users ! 0, sample_users ! 1]"
    by (simp add: sample_users_def)
  from process_entry_two_users [OF f1 p0 t1, of untitled_feed "sample_users ! 0"
      "sample_users ! 1", folded su, folded r1_def]
  obtain x p q where b:
    "snd (process_entry untitled_env untitled_feed sample_users (sample_entry 49) r0) = None"
    "infos (db r1) = infos (db r0) @ [x]" "pushes (db r1) = pushes (db r0) @ [p, q]"
    by blast
  have s1: "process_entry untitled_env untitled_feed sample_users (sample_entry 49) r0 =
      (r1, None)"
    using b(1) by (simp add: r1_def prod_eq_iff)
  have s2: "process_entry untitled_env untitled_feed sample_users
      ((sample_entry 50)\<lparr>e_title := None\<rparr>) r1 = (r1, Some (AttributeError ''title''))"
    by (simp add: process_entry_def)
  have u1: "RSS_URLS untitled_env = [py ''feed'']"
    by (simp add: untitled_env_def sample_env_def)
  have u2: "feedparser_parse untitled_env (py ''feed'') = Inr untitled_feed"
    by (simp add: untitled_env_def)
  have u3: "take 3 (f_entries untitled_feed) =
      [sample_entry 49, (sample_entry 50)\<lparr>e_title := None\<rparr>, sample_entry 51]"
    by (simp add: untitled_feed_def)
  have u4: "users sample_store = sample_users" by (simp add: sample_store_def)
  have "for_entries untitled_env untitled_feed sample_users
      [sample_entry 49, (sample_entry 50)\<lparr>e_title := None\<rparr>, sample_entry 51] r0 =
      (r1, Some (AttributeError ''title''))"
    by (simp add: s1 s2)
  then have c: "fetch_and_summarize untitled_env sample_store =
      (r1, Some (AttributeError ''title''))"
    unfolding fetch_and_summarize_def u1 u4 r0_def [symmetric] for_feeds_single [OF u2] u3 .
  have d: "length (infos (db r1)) = length (infos sample_store) + 1"
    "length (pushes (db r1)) = length (pushes sample_store) + 2"
    using b(2) b(3) by (simp_all add: r0_def)
  have e: "RSS_URLS faulty_env = [py ''feed'']"
    "feedparser_parse faulty_env (py ''feed'') = Inr sample_feed"
    "length (f_entries sample_feed) = 4" "length (users sample_store) = 2"
    "length (f_entries untitled_feed) = 3"
    by (simp_all add: faulty_env_def sample_env_def sample_feed_def untitled_feed_def
        sample_store_def sample_users_def)
  show ?thesis
    unfolding a c using d e u1 u2 by simp
qed

lemma registered_store_eval:
  "registered_store =
     \<lparr> users = [\<lparr> u_id = 1, u_profession = py ''nurse'', u_field = None, u_contact = None,
                    u_created_at = 0 \<rparr>,
                 \<lparr> u_id = 2, u_profession = py ''welder'', u_field = Some (py ''AI''),
                    u_contact = None, u_created_at = 0 \<rparr>],
       infos = [], pushes = [] \<rparr>"
  by (simp add: registered_store_def register_user_def empty_store_def next_id_def)

lemma registered_store_reachable: "reachable registered_store"
  unfolding registered_store_def
  by (intro reach_register reach_empty)

section \<open>The delivered flag\<close>

lemma flush_unpushed:
  "\<forall>p\<in>set ps. \<not> p_pushed p \<Longrightarrow> \<forall>p\<in>set (flush today ns ps). \<not> p_pushed p"
  by (induction today ns ps rule: flush.induct) auto

lemma session_commit_unpushed:
  "\<forall>p\<in>set (pushes (db r)). \<not> p_pushed p \<Longrightarrow>
   \<forall>p\<in>set (pushes (db (session_commit E r))). \<not> p_pushed p"
  using flush_unpushed [of "pushes (db r)" "date_today E" "pending r"]
  by (simp add: session_commit_def)

lemma for_users_unpushed:
  "\<forall>p\<in>set (pushes (db r)). \<not> p_pushed p \<Longrightarrow>
   \<forall>p\<in>set (pushes (db (fst (for_users E info us r)))). \<not> p_pushed p"
proof (induction us arbitrary: r info)
  case Nil
  then show ?case by simp
next
  case (Cons u us)
  let ?g = "generate_summary_and_suggestion (requests_post E (requests r))
              (u_profession u) (i_title info) (i_content info)"
  show ?case
  proof (cases ?g)
    case (Inl f)
    then show ?thesis using Cons.prems by (simp add: Let_def)
  next
    case (Inr y)
    obtain summary suggestion where y: "y = (summary, suggestion)" by (cases y)
    let ?info = "info\<lparr>i_summary := Some summary, i_suggestion := Some suggestion\<rparr>"
    let ?r0 = "r\<lparr> events := events r @ [Summarize_Called (i_id info) (u_id u)
                                        (Info_query_get (db r) (i_id info) \<noteq> None)],
                  requests := Suc (requests r) \<rparr>"
    let ?r1 = "session_commit E (?r0\<lparr>db := update_info ?info (db ?r0)\<rparr>)"
    let ?r2 = "?r1\<lparr>pending := pending ?r1 @ [(u_id u, i_id ?info, suggestion)]\<rparr>"
    have "\<forall>p\<in>set (pushes (db (?r0\<lparr>db := update_info ?info (db ?r0)\<rparr>))). \<not> p_pushed p"
      using Cons.prems by (simp add: update_info_def)
    then have "\<forall>p\<in>set (pushes (db ?r1)). \<not> p_pushed p"
      by (rule session_commit_unpushed)
    then have "\<forall>p\<in>set (pushes (db ?r2)). \<not> p_pushed p" by simp
    from Cons.IH [OF this, of ?info] show ?thesis
      using Inr y by (simp add: Let_def)
  qed
qed

lemma process_entry_unpushed:
  assumes "\<forall>p\<in>set (pushes (db r)). \<not> p_pushed p"
  shows "\<forall>p\<in>set (pushes (db (fst (process_entry E fd us e r)))). \<not> p_pushed p"
proof (cases "e_title e")
  case None
  then show ?thesis using assms by (simp add: process_entry_def)
next
  case (Some title)
  show ?thesis
  proof (cases "e_link e")
    case None
    then show ?thesis using assms Some by (simp add: process_entry_def)
  next
    case (Some link)
    let ?info = "\<lparr> i_id = next_id (map i_id (infos (db r))), i_title = title, i_url = link,
                   i_source = (case f_title fd of None \<Rightarrow> py ''RSS'' | Some t \<Rightarrow> t),
                   i_content = (case e_summary e of None \<Rightarrow> [] | Some c \<Rightarrow> c),
                   i_summary = None, i_suggestion = None,
                   i_fetched_at = datetime_utcnow E \<rparr>"
    let ?r0 = "session_commit E (r\<lparr>db := insert_info ?info (db r)\<rparr>)"
    let ?r1 = "?r0\<lparr>events := events ?r0 @ [Info_Committed (i_id ?info)]\<rparr>"
    have "\<forall>p\<in>set (pushes (db (r\<lparr>db := insert_info ?info (db r)\<rparr>))). \<not> p_pushed p"
      using assms by (simp add: insert_info_def)
    then have "\<forall>p\<in>set (pushes (db ?r0)). \<not> p_pushed p"
      by (rule session_commit_unpushed)
    then have r1: "\<forall>p\<in>set (pushes (db ?r1)). \<not> p_pushed p" by simp
    have fu: "\<forall>p\<in>set (pushes (db (fst (for_users E ?info us ?r1)))). \<not> p_pushed p"
      by (rule for_users_unpushed [OF r1])
    obtain r2 f where res: "for_users E ?info us ?r1 = (r2, f)" by (cases "for_users E ?info us ?r1")
    have r2: "\<forall>p\<in>set (pushes (db r2)). \<not> p_pushed p" using fu res by simp
    have r3: "\<forall>p\<in>set (pushes (db (session_commit E r2))). \<not> p_pushed p"
      by (rule session_commit_unpushed [OF r2])
    show ?thesis using \<open>e_title e = Some title\<close> Some res r2 r3
      by (cases f) (simp_all add: process_entry_def Let_def)
  qed
qed

lemma for_entries_unpushed:
  "\<forall>p\<in>set (pushes (db r)). \<not> p_pushed p \<Longrightarrow>
   \<forall>p\<in>set (pushes (db (fst (for_entries E fd us es r)))). \<not> p_pushed p"
proof (induction es arbitrary: r)
  case Nil
  then show ?case by simp
next
  case (Cons e es)
  obtain r' f where res: "process_entry E fd us e r = (r', f)"
    by (cases "process_entry E fd us e r")
  have r': "\<forall>p\<in>set (pushes (db r')). \<not> p_pushed p"
    using process_entry_unpushed [OF Cons.prems, of E fd us e] res by simp
  show ?case using res r' Cons.IH [OF r'] by (cases f) simp_all
qed

lemma for_feeds_unpushed:
  "\<forall>p\<in>set (pushes (db r)). \<not> p_pushed p \<Longrightarrow>
   \<forall>p\<in>set (pushes (db (fst (for_feeds E us urls r)))). \<not> p_pushed p"
proof (induction urls arbitrary: r)
  case Nil
  then show ?case by simp
next
  case (Cons rss rest)
  show ?case
  proof (cases "feedparser_parse E rss")
    case (Inl f)
    then show ?thesis using Cons.prems by simp
  next
    case (Inr fd)
    obtain r' f where res: "for_entries E fd us (take 3 (f_entries fd)) r = (r', f)"
      by (cases "for_entries E fd us (take 3 (f_entries fd)) r")
    have r': "\<forall>p\<in>set (pushes (db r')). \<not> p_pushed p"
      using for_entries_unpushed [OF Cons.prems, of E fd us "take 3 (f_entries fd)"] res by simp
    show ?thesis using Inr res r' Cons.IH [OF r'] by (cases f) simp_all
  qed
qed

lemma fetch_and_summarize_unpushed:
  "\<forall>p\<in>set (pushes s). \<not> p_pushed p \<Longrightarrow>
   \<forall>p\<in>set (pushes (db (fst (fetch_and_summarize E s)))). \<not> p_pushed p"
  unfolding fetch_and_summarize_def by (rule for_feeds_unpushed) simp

lemma register_user_unpushed:
  "\<forall>p\<in>set (pushes s). \<not> p_pushed p \<Longrightarrow>
   \<forall>p\<in>set (pushes (snd (register_user utcnow s data))). \<not> p_pushed p"
  by (simp add: register_user_def Let_def split: option.splits)

lemma get_today_unchanged: "snd (get_today today s user_id) = s"
  by (simp add: get_today_def split: option.splits sum.splits)

lemma complete_task_unpushed:
  "\<forall>p\<in>set (pushes s). \<not> p_pushed p \<Longrightarrow>
   \<forall>p\<in>set (pushes (snd (complete_task s cdata))). \<not> p_pushed p"
  by (auto simp: complete_task_def split: option.splits sum.splits)

text \<open>
  C10. In every reachable store, the \<open>pushed\<close> flag of every Push row is false: a row is
  created with \<open>pushed = False\<close>, and neither the ingestion job (whether it completes or is
  ended by a fault) nor a handler writes the flag.
\<close>

theorem pushed_never_set:
  "reachable s \<Longrightarrow> \<forall>p\<in>set (pushes s). \<not> p_pushed p"
proof (induction rule: reachable.induct)
  case reach_empty
  show ?case by (simp add: empty_store_def)
next
  case (reach_ingest s E)
  from fetch_and_summarize_unpushed [OF reach_ingest.IH] show ?case .
next
  case (reach_register s utcnow data)
  from register_user_unpushed [OF reach_register.IH] show ?case .
next
  case (reach_today s today user_id)
  then show ?case by (simp add: get_today_unchanged)
next
  case (reach_complete s cdata)
  from complete_task_unpushed [OF reach_complete.IH] show ?case .
qed

theorem pushed_never_set_witness:
  "reachable (db (fst (fetch_and_summarize sample_env registered_store)))
   \<and> length (pushes (db (fst (fetch_and_summarize sample_env registered_store)))) = 6
   \<and> list_all (\<lambda>p. \<not> p_pushed p)
         (pushes (db (fst (fetch_and_summarize sample_env registered_store))))"
proof -
  have r: "reachable (db (fst (fetch_and_summarize sample_env registered_store)))"
    by (intro reach_ingest registered_store_reachable)
  have h1: "RSS_URLS sample_env = [py ''feed'']" by (simp add: sample_env_def)
  have h2: "feedparser_parse sample_env (py ''feed'') = Inr sample_feed"
    by (simp add: sample_env_def)
  have h3: "f_entries sample_feed = sample_entry 49 # sample_entry 50 # sample_entry 51 #
      [sample_entry 52]"
    by (simp add: sample_feed_def)
  have h4: "users registered_store =
      [\<lparr> u_id = 1, u_profession = py ''nurse'', u_field = None, u_contact = None,
          u_created_at = 0 \<rparr>,
       \<lparr> u_id = 2, u_profession = py ''welder'', u_field = Some (py ''AI''),
          u_contact = None, u_created_at = 0 \<rparr>]"
    by (simp add: registered_store_eval)
  have h5: "\<forall>e\<in>set [sample_entry 49, sample_entry 50, sample_entry 51].
      e_title e \<noteq> None \<and> e_link e \<noteq> None"
    by (simp add: sample_entry_def)
  have h6: "\<forall>n<6. \<forall>pl. \<exists>reply. requests_post sample_env n pl = Inr reply"
    by (simp add: sample_env_def)
  from three_entries_two_users_run [OF h1 h2 h3 h4 h5 h6]
  obtain r' p1 p2 p3 p4 p5 p6 where c:
    "fetch_and_summarize sample_env registered_store = (r', None)"
    "pushes (db r') = pushes registered_store @ [p1, p2, p3, p4, p5, p6]"
    by blast
  have n: "length (pushes (db (fst (fetch_and_summarize sample_env registered_store)))) = 6"
    using c by (simp add: registered_store_eval)
  from pushed_never_set [OF r] have
    "list_all (\<lambda>p. \<not> p_pushed p)
       (pushes (db (fst (fetch_and_summarize sample_env registered_store))))"
    by (simp add: list_all_iff)
  with r n show ?thesis by (intro conjI)
qed

end
